theory Spec2Isabelle
  imports Main
begin

section \<open>The session module of AO3 (src/AO3/session.py)\<close>

text \<open>
  The module talks to one web site and reads the pages it gets back with an HTML
  parser. Neither is code of the module, so both enter the model as data:
  \<^item> the site is a function from the requests a transport handle has already sent and
    the next request to the response it gets (a deterministic site whose answers may
    depend on everything the handle has sent so far: cookies, rate limiting);
  \<^item> a parsed page is the record of what the parser's queries used by the module
    return on it.
  Everything the module itself does (the order of requests, status checks, the
  classification of links, the caches, what is left behind when an exception is raised)
  is written out.
\<close>

subsection \<open>Exceptions\<close>

datatype error =
    HTTPError                \<comment> \<open>utils.HTTPError: status 429\<close>
  | UnexpectedResponseError  \<comment> \<open>utils.UnexpectedResponseError\<close>
  | LoginError               \<comment> \<open>utils.LoginError\<close>
  | TypeError                \<comment> \<open>subscripting None\<close>
  | KeyError                 \<comment> \<open>a missing attribute of a tag\<close>
  | AttributeError           \<comment> \<open>a method or attribute of None\<close>
  | ValueError               \<comment> \<open>int() of a string that is no integer literal\<close>
  | IndexError               \<comment> \<open>a list index out of range\<close>
  | UnboundLocalError        \<comment> \<open>a local variable read before its first assignment\<close>

subsection \<open>Parsed pages\<close>

text \<open>
  An \<open>a\<close> tag as the loaders read it: \<open>a.attrs.get('rel')\<close> (the parser gives the
  multi-valued attribute \<open>rel\<close> as a list of strings), \<open>a.attrs.get('href')\<close> and
  \<open>a.string\<close> (None when the tag has no single string child).
\<close>

record anchor =
  rel :: "string list option"
  href :: "string option"
  a_string :: "string option"

text \<open>
  A page (the BeautifulSoup object) through the queries of the module:
  \<^item> \<open>token_input\<close>: \<open>soup.find("input", {"name": "authenticity_token"})\<close>, None
    when there is no such tag, otherwise its \<open>value\<close> attribute (None when the tag has
    none);
  \<^item> \<open>pagination\<close>: \<open>soup.find("ol", {"title": "pagination"})\<close>, None when absent,
    otherwise \<open>li.getText()\<close> of each \<open>li\<close> of \<open>pages.findAll("li")\<close>;
  \<^item> \<open>subscription_group\<close>: \<open>soup.find("dl", {'class': 'subscription index group'})\<close>,
    otherwise \<open>sub.find_all("a")\<close> of each \<open>dt\<close> of \<open>find_all("dt")\<close>;
  \<^item> \<open>bookmark_group\<close>: \<open>soup.find("ol", {'class': 'bookmark index group'})\<close>, otherwise,
    for each \<open>li\<close> of \<open>find_all("li", {'class': 'bookmark blurb group'})\<close>, None when
    \<open>bookm.h4\<close> is None and \<open>bookm.h4.find_all("a")\<close> otherwise;
  \<^item> \<open>inner_current\<close>: \<open>soup.find("div", {'id': 'inner'})\<close>, otherwise None when
    \<open>div.find("span", {'class': 'current'})\<close> is None and the span's \<open>getText()\<close>
    otherwise.
\<close>

record page =
  token_input :: "string option option"
  pagination :: "string list option"
  subscription_group :: "anchor list list option"
  bookmark_group :: "anchor list option list option"
  inner_current :: "string option option"

record response =
  status_code :: int
  content :: page

subsection \<open>Requests and the site\<close>

datatype request =
    Get string
  | Post string "(string \<times> string) list" bool
      \<comment> \<open>url, \<open>params\<close>, \<open>allow_redirects\<close>\<close>

text \<open>
  The collaborators of the module. \<open>server h r\<close> is the response to request \<open>r\<close> on a
  transport handle that has sent the requests \<open>h\<close> before.
  \<open>workid_from_url\<close> is \<open>utils.workid_from_url\<close>, which is not among the sources: it
  is a parameter, a function from the link to an id or None.
\<close>

record env =
  server :: "request list \<Rightarrow> request \<Rightarrow> response"
  workid_from_url :: "string \<Rightarrow> int option"

subsection \<open>Entities\<close>

text \<open>
  Modelled from the spec: the entity constructors \<open>User(name, load=False)\<close>,
  \<open>Work(id, load=False)\<close> and \<open>Series(id, load=False)\<close> (users.py, works.py and
  series.py are not among the sources) "build unloaded handles": they keep their
  argument as the identity field and fetch nothing. The display fields are the ones
  the loaders set with \<open>setattr\<close>.
\<close>

record user =
  user_name :: "string option"

record work =
  work_id :: "int option"
  work_title :: "string option"
  work_authors :: "user list"

record series =
  series_id :: "int option"
  series_name :: "string option"
  series_authors :: "user list"

definition User :: "string option \<Rightarrow> user" where
  "User name = \<lparr>user_name = name\<rparr>"

definition Work :: "int option \<Rightarrow> work" where
  "Work workid = \<lparr>work_id = workid, work_title = None, work_authors = []\<rparr>"

definition Series :: "int option \<Rightarrow> series" where
  "Series seriesid = \<lparr>series_id = seriesid, series_name = None, series_authors = []\<rparr>"

text \<open>
  Modelled from the spec: \<open>Work.__eq__\<close> (works.py is not among the sources), the
  "entity equality operator used for bookmark deduplication", is "identity equality":
  two works are equal when their ids are.
\<close>

definition work_eq :: "work \<Rightarrow> work \<Rightarrow> bool" where
  "work_eq a b = (work_id a = work_id b)"

text \<open>What a variable or a list element of the module can hold.\<close>

datatype obj = WorkObj work | SeriesObj series | UserObj user | NoneObj

fun isinstance_Work :: "obj \<Rightarrow> bool" where
  "isinstance_Work (WorkObj w) = True"
| "isinstance_Work x = False"

fun isinstance_Series :: "obj \<Rightarrow> bool" where
  "isinstance_Series (SeriesObj w) = True"
| "isinstance_Series x = False"

fun isinstance_User :: "obj \<Rightarrow> bool" where
  "isinstance_User (UserObj w) = True"
| "isinstance_User x = False"

subsection \<open>The session object\<close>

text \<open>
  One record for \<open>GuestSession\<close> and \<open>Session\<close>. \<open>session\<close> is the transport handle
  (\<open>requests.Session()\<close>): the requests sent through it so far. \<open>p_subscriptions\<close> and
  \<open>p_bookmarks\<close> are \<open>_subscriptions\<close> and \<open>_bookmarks\<close> (None or a list). The three
  \<open>cached_\<close> fields are the entries that \<open>functools.cached_property\<close> keeps in the
  instance dictionary for \<open>_subscription_pages\<close>, \<open>_bookmark_pages\<close> and
  \<open>bookmarks\<close>: None while the property has not been computed. An attribute that the
  object does not have yet is None as well.
\<close>

record session_obj =
  is_authed :: bool
  authenticity_token :: "string option"
  username :: string
  session :: "request list"
  url :: string
  p_bookmarks :: "work list option"
  p_subscriptions :: "obj list option"
  cached_subscription_pages :: "int option"
  cached_bookmark_pages :: "int option"
  cached_bookmarks :: "int option"

type_synonym 'a result = "(error + 'a) \<times> session_obj"

definition GuestSession_init :: "session_obj" where
  "GuestSession_init =
     \<lparr>is_authed = False, authenticity_token = None, username = '''', session = [],
      url = '''', p_bookmarks = None, p_subscriptions = None,
      cached_subscription_pages = None, cached_bookmark_pages = None,
      cached_bookmarks = None\<rparr>"

subsection \<open>Transport\<close>

text \<open>
  Modelled from the spec: \<open>requester.request\<close> (requester.py is not among the sources)
  and the methods of the handle "wrap outbound HTTP GET/POST" and "surface raw response
  bodies". Sending a request through the handle: the site answers and the handle records
  the request.
\<close>

definition send :: "env \<Rightarrow> request \<Rightarrow> session_obj \<Rightarrow> response \<times> session_obj" where
  "send E r s = (server E (session s) r, s\<lparr>session := session s @ [r]\<rparr>)"

text \<open>
  \<open>GuestSession.get\<close>. Both branches of the source (\<open>self.session is None\<close> or not)
  send the same GET; the handle of the model is never None.
\<close>

definition get :: "env \<Rightarrow> string \<Rightarrow> session_obj \<Rightarrow> response result" where
  "get E u s =
     (case send E (Get u) s of (req, s') \<Rightarrow>
        if status_code req = 429 then (Inl HTTPError, s') else (Inr req, s'))"

definition request :: "env \<Rightarrow> string \<Rightarrow> session_obj \<Rightarrow> page result" where
  "request E u s =
     (case get E u s of
        (Inl e, s') \<Rightarrow> (Inl e, s')
      | (Inr req, s') \<Rightarrow> (Inr (content req), s'))"

definition post :: "env \<Rightarrow> string \<Rightarrow> (string \<times> string) list \<Rightarrow> bool \<Rightarrow> session_obj
    \<Rightarrow> response result" where
  "post E u params allow_redirects s =
     (case send E (Post u params allow_redirects) s of (req, s') \<Rightarrow>
        if status_code req = 429 then (Inl HTTPError, s') else (Inr req, s'))"

subsection \<open>Token refresh\<close>

text \<open>
  Modelled from the spec: the decorator \<open>threadable.threadable\<close> (threadable.py is not
  among the sources) runs a method on a worker only when the caller asks for it with
  \<open>threaded=True\<close>. \<open>refresh_auth_token\<close>, \<open>_load_subscriptions\<close> and
  \<open>_load_bookmarks\<close> are modelled as they run when called directly.
\<close>

definition refresh_auth_token :: "env \<Rightarrow> session_obj \<Rightarrow> unit result" where
  "refresh_auth_token E s =
     (case (if is_authed s
            then send E (Get (''https://archiveofourown.org/users/'' @ username s)) s
            else send E (Get ''https://archiveofourown.org'') s) of
        (req, s') \<Rightarrow>
          if status_code req = 429 then (Inl HTTPError, s')
          else (case token_input (content req) of
                  None \<Rightarrow> (Inl UnexpectedResponseError, s')
                | Some None \<Rightarrow> (Inl KeyError, s')
                | Some (Some v) \<Rightarrow> (Inr (), s'\<lparr>authenticity_token := Some v\<rparr>)))"

subsection \<open>Login\<close>

text \<open>
  \<open>Session.__init__\<close>, as a method on the object under construction: the result holds
  the object as the exception leaves it. \<open>Session_new\<close> is the expression
  \<open>Session(username, password)\<close>, which gives the object only when \<open>__init__\<close> returns.
\<close>

definition Session_init :: "env \<Rightarrow> string \<Rightarrow> string \<Rightarrow> unit result" where
  "Session_init E name password =
     (let s0 = GuestSession_init
               \<lparr>is_authed := True, username := name,
                url := ''https://archiveofourown.org/users/'' @ name, session := []\<rparr>
      in case request E ''https://archiveofourown.org/users/login'' s0 of
           (Inl e, s1) \<Rightarrow> (Inl e, s1)
         | (Inr soup, s1) \<Rightarrow>
             (case token_input soup of
                None \<Rightarrow> (Inl TypeError, s1)
              | Some None \<Rightarrow> (Inl KeyError, s1)
              | Some (Some v) \<Rightarrow>
                  (let s2 = s1\<lparr>authenticity_token := Some v\<rparr>;
                       payload = [(''user[login]'', name), (''user[password]'', password),
                                  (''authenticity_token'', v)]
                   in case post E ''https://archiveofourown.org/users/login'' payload False s2 of
                        (Inl e, s3) \<Rightarrow> (Inl e, s3)
                      | (Inr p, s3) \<Rightarrow>
                          if \<not> status_code p = 302 then (Inl LoginError, s3)
                          else (Inr (), s3\<lparr>p_bookmarks := None, p_subscriptions := None\<rparr>))))"

definition Session_new :: "env \<Rightarrow> string \<Rightarrow> string \<Rightarrow> error + session_obj" where
  "Session_new E name password =
     (case Session_init E name password of
        (Inl e, s) \<Rightarrow> Inl e
      | (Inr u, s) \<Rightarrow> Inr s)"

subsection \<open>Strings and integers of Python\<close>

text \<open>
  Text is ASCII in this model (a \<open>char\<close> is a byte). \<open>str.isdigit\<close>, \<open>int\<close>,
  \<open>str.split\<close> with a one-character separator, \<open>str.startswith\<close>, \<open>str.replace\<close>
  of a character by the empty string, and the format \<open>{:d}\<close>.
\<close>

definition digit_of :: "char \<Rightarrow> int option" where
  "digit_of c = map_of (zip ''0123456789'' [0, 1, 2, 3, 4, 5, 6, 7, 8, 9]) c"

definition isdigit :: "string \<Rightarrow> bool" where
  "isdigit text = (text \<noteq> [] \<and> list_all (\<lambda>c. digit_of c \<noteq> None) text)"

definition is_space :: "char \<Rightarrow> bool" where
  "is_space c = (c \<in> set [CHR '' '', CHR 0x09, CHR 0x0A, CHR 0x0B, CHR 0x0C, CHR 0x0D,
                           CHR 0x1C, CHR 0x1D, CHR 0x1E, CHR 0x1F])"

definition strip :: "string \<Rightarrow> string" where
  "strip t = rev (dropWhile is_space (rev (dropWhile is_space t)))"

text \<open>Digits after the first one: single underscores may stand between digits.\<close>

fun digits_acc :: "int \<Rightarrow> string \<Rightarrow> int option" where
  "digits_acc n [] = Some n"
| "digits_acc n (c # cs) =
     (if c = CHR ''_'' then
        (case cs of
           [] \<Rightarrow> None
         | d # ds \<Rightarrow> (case digit_of d of None \<Rightarrow> None | Some v \<Rightarrow> digits_acc (10 * n + v) ds))
      else (case digit_of c of None \<Rightarrow> None | Some v \<Rightarrow> digits_acc (10 * n + v) cs))"

definition py_digits :: "string \<Rightarrow> int option" where
  "py_digits t =
     (case t of
        [] \<Rightarrow> None
      | c # cs \<Rightarrow> (case digit_of c of None \<Rightarrow> None | Some v \<Rightarrow> digits_acc v cs))"

text \<open>\<open>int(t)\<close> for a string: None stands for ValueError.\<close>

definition py_int :: "string \<Rightarrow> int option" where
  "py_int t =
     (case strip t of
        [] \<Rightarrow> None
      | c # cs \<Rightarrow>
          if c = CHR ''-'' then map_option uminus (py_digits cs)
          else if c = CHR ''+'' then py_digits cs
          else py_digits (c # cs))"

fun split_on :: "char \<Rightarrow> string \<Rightarrow> string list" where
  "split_on sep [] = [[]]"
| "split_on sep (c # cs) =
     (if c = sep then [] # split_on sep cs
      else (case split_on sep cs of
              [] \<Rightarrow> [[c]]
            | w # ws \<Rightarrow> (c # w) # ws))"

definition startswith :: "string \<Rightarrow> string \<Rightarrow> bool" where
  "startswith t p = (take (length p) t = p)"

definition remove_char :: "char \<Rightarrow> string \<Rightarrow> string" where
  "remove_char c t = filter (\<lambda>x. x \<noteq> c) t"

definition digit_char :: "nat \<Rightarrow> char" where
  "digit_char d = ''0123456789'' ! d"

fun str_nat :: "nat \<Rightarrow> string" where
  "str_nat n = (if n < 10 then [digit_char n] else str_nat (n div 10) @ [digit_char (n mod 10)])"

declare str_nat.simps [simp del]

definition format_d :: "int \<Rightarrow> string" where
  "format_d i = (if i < 0 then CHR ''-'' # str_nat (nat (- i)) else str_nat (nat i))"

subsection \<open>The url templates\<close>

text \<open>\<open>self._subscriptions_url.format(self.username, page)\<close> and the same for bookmarks.\<close>

definition subscriptions_url :: "string \<Rightarrow> int \<Rightarrow> string" where
  "subscriptions_url name page =
     ''https://archiveofourown.org/users/'' @ name @ ''/subscriptions?page='' @ format_d page"

definition bookmarks_url :: "string \<Rightarrow> int \<Rightarrow> string" where
  "bookmarks_url name page =
     ''https://archiveofourown.org/users/'' @ name @ ''/bookmarks?page='' @ format_d page"

subsection \<open>The cache\<close>

definition clear_cache :: "session_obj \<Rightarrow> session_obj" where
  "clear_cache s =
     s\<lparr>cached_subscription_pages := None, cached_bookmark_pages := None,
       cached_bookmarks := None, p_bookmarks := None, p_subscriptions := None\<rparr>"

subsection \<open>Page counts\<close>

text \<open>
  The body that \<open>_subscription_pages\<close> and \<open>_bookmark_pages\<close> share, from
  \<open>pages = soup.find("ol", {"title": "pagination"})\<close> on.
\<close>

fun last_number :: "string list \<Rightarrow> int \<Rightarrow> error + int" where
  "last_number [] n = Inr n"
| "last_number (text # lis) n =
     (if isdigit text then
        (case py_int text of None \<Rightarrow> Inl ValueError | Some v \<Rightarrow> last_number lis v)
      else last_number lis n)"

definition pages_of_soup :: "page \<Rightarrow> error + int" where
  "pages_of_soup soup =
     (case pagination soup of
        None \<Rightarrow> Inr 1
      | Some lis \<Rightarrow> last_number lis 1)"

definition subscription_pages :: "env \<Rightarrow> session_obj \<Rightarrow> int result" where
  "subscription_pages E s =
     (case cached_subscription_pages s of
        Some n \<Rightarrow> (Inr n, s)
      | None \<Rightarrow>
          (case request E (subscriptions_url (username s) 1) s of
             (Inl e, s1) \<Rightarrow> (Inl e, s1)
           | (Inr soup, s1) \<Rightarrow>
               (case pages_of_soup soup of
                  Inl e \<Rightarrow> (Inl e, s1)
                | Inr n \<Rightarrow> (Inr n, s1\<lparr>cached_subscription_pages := Some n\<rparr>))))"

definition bookmark_pages :: "env \<Rightarrow> session_obj \<Rightarrow> int result" where
  "bookmark_pages E s =
     (case cached_bookmark_pages s of
        Some n \<Rightarrow> (Inr n, s)
      | None \<Rightarrow>
          (case request E (bookmarks_url (username s) 1) s of
             (Inl e, s1) \<Rightarrow> (Inl e, s1)
           | (Inr soup, s1) \<Rightarrow>
               (case pages_of_soup soup of
                  Inl e \<Rightarrow> (Inl e, s1)
                | Inr n \<Rightarrow> (Inr n, s1\<lparr>cached_bookmark_pages := Some n\<rparr>))))"

subsection \<open>Subscriptions\<close>

text \<open>The local variables of the loop body of \<open>_load_subscriptions\<close>.\<close>

record sub_vars =
  v_type :: string
  v_user :: obj
  v_series :: "int option"
  v_workid :: "int option"
  v_workname :: "string option"
  v_authors :: "user list"

definition sub_vars_init :: sub_vars where
  "sub_vars_init =
     \<lparr>v_type = ''work'', v_user = NoneObj, v_series = None, v_workid = None,
      v_workname = None, v_authors = []\<rparr>"

text \<open>\<open>for a in sub.find_all("a")\<close>.\<close>

fun sub_links :: "env \<Rightarrow> anchor list \<Rightarrow> sub_vars \<Rightarrow> error + sub_vars" where
  "sub_links E [] v = Inr v"
| "sub_links E (a # as) v =
     (case rel a of
        Some r \<Rightarrow>
          (if ''author'' \<in> set r
           then sub_links E as (v\<lparr>v_authors := v_authors v @ [User (a_string a)]\<rparr>)
           else sub_links E as v)
      | None \<Rightarrow>
          (case href a of
             None \<Rightarrow> Inl KeyError
           | Some h \<Rightarrow>
               if startswith h ''/works''
               then sub_links E as (v\<lparr>v_workname := a_string a, v_workid := workid_from_url E h\<rparr>)
               else if startswith h ''/users''
               then sub_links E as (v\<lparr>v_type := ''user'', v_user := UserObj (User (a_string a))\<rparr>)
               else (case py_int (last (split_on CHR ''/'' h)) of
                       None \<Rightarrow> Inl ValueError
                     | Some n \<Rightarrow>
                         sub_links E as
                           (v\<lparr>v_type := ''series'', v_workname := a_string a,
                              v_series := Some n\<rparr>))))"

text \<open>The object that the end of the loop body appends, if any.\<close>

definition sub_new :: "sub_vars \<Rightarrow> obj option" where
  "sub_new v =
     (if v_type v = ''work''
      then Some (WorkObj ((Work (v_workid v))\<lparr>work_title := v_workname v,
                                               work_authors := v_authors v\<rparr>))
      else if v_type v = ''user'' then Some (v_user v)
      else if v_type v = ''series''
      then Some (SeriesObj ((Series (v_series v))\<lparr>series_name := v_workname v,
                                                    series_authors := v_authors v\<rparr>))
      else None)"

text \<open>
  One pass of the body of \<open>for sub in subscriptions.find_all("dt")\<close> up to the
  \<open>append\<close>: the exception it raises, or the object it is about to append, if any.
\<close>

definition sub_entry :: "env \<Rightarrow> anchor list \<Rightarrow> error + obj option" where
  "sub_entry E sub =
     (case sub_links E sub sub_vars_init of
        Inl e \<Rightarrow> Inl e
      | Inr v \<Rightarrow> Inr (sub_new v))"

fun load_subscription_entries :: "env \<Rightarrow> anchor list list \<Rightarrow> session_obj \<Rightarrow> unit result" where
  "load_subscription_entries E [] s = (Inr (), s)"
| "load_subscription_entries E (sub # subs) s =
     (case sub_entry E sub of
        Inl e \<Rightarrow> (Inl e, s)
      | Inr None \<Rightarrow> load_subscription_entries E subs s
      | Inr (Some new) \<Rightarrow>
          (case p_subscriptions s of
             None \<Rightarrow> (Inl AttributeError, s)
           | Some xs \<Rightarrow>
               load_subscription_entries E subs (s\<lparr>p_subscriptions := Some (xs @ [new])\<rparr>)))"

definition load_subscriptions :: "env \<Rightarrow> int \<Rightarrow> session_obj \<Rightarrow> unit result" where
  "load_subscriptions E page s =
     (case request E (subscriptions_url (username s) page) s of
        (Inl e, s1) \<Rightarrow> (Inl e, s1)
      | (Inr soup, s1) \<Rightarrow>
          (case subscription_group soup of
             None \<Rightarrow> (Inl AttributeError, s1)
           | Some subs \<Rightarrow> load_subscription_entries E subs s1))"

text \<open>\<open>for page in range(...): self._load_subscriptions(page=page+1)\<close>.\<close>

fun load_subscriptions_range :: "env \<Rightarrow> nat list \<Rightarrow> session_obj \<Rightarrow> unit result" where
  "load_subscriptions_range E [] s = (Inr (), s)"
| "load_subscriptions_range E (page # pages) s =
     (case load_subscriptions E (int page + 1) s of
        (Inl e, s1) \<Rightarrow> (Inl e, s1)
      | (Inr u, s1) \<Rightarrow> load_subscriptions_range E pages s1)"

text \<open>
  \<open>get_subscriptions\<close> with \<open>use_threading=False\<close>, the default. It returns
  \<open>self._subscriptions\<close>, whatever that holds.
\<close>

definition get_subscriptions :: "env \<Rightarrow> session_obj \<Rightarrow> obj list option result" where
  "get_subscriptions E s =
     (case p_subscriptions s of
        Some xs \<Rightarrow> (Inr (p_subscriptions s), s)
      | None \<Rightarrow>
          (let s1 = s\<lparr>p_subscriptions := Some []\<rparr>
           in case subscription_pages E s1 of
                (Inl e, s2) \<Rightarrow> (Inl e, s2)
              | (Inr n, s2) \<Rightarrow>
                  (case load_subscriptions_range E [0..<nat n] s2 of
                     (Inl e, s3) \<Rightarrow> (Inl e, s3)
                   | (Inr u, s3) \<Rightarrow> (Inr (p_subscriptions s3), s3))))"

text \<open>\<open>list(filter(f, subs))\<close>: iterating None raises TypeError.\<close>

definition list_filter :: "(obj \<Rightarrow> bool) \<Rightarrow> obj list option result \<Rightarrow> obj list result" where
  "list_filter f r =
     (case r of
        (Inl e, s) \<Rightarrow> (Inl e, s)
      | (Inr None, s) \<Rightarrow> (Inl TypeError, s)
      | (Inr (Some subs), s) \<Rightarrow> (Inr (filter f subs), s))"

definition get_work_subscriptions :: "env \<Rightarrow> session_obj \<Rightarrow> obj list result" where
  "get_work_subscriptions E s = list_filter isinstance_Work (get_subscriptions E s)"

definition get_series_subscriptions :: "env \<Rightarrow> session_obj \<Rightarrow> obj list result" where
  "get_series_subscriptions E s = list_filter isinstance_Series (get_subscriptions E s)"

definition get_user_subscriptions :: "env \<Rightarrow> session_obj \<Rightarrow> obj list result" where
  "get_user_subscriptions E s = list_filter isinstance_User (get_subscriptions E s)"

subsection \<open>Bookmarks\<close>

text \<open>
  The local variables of \<open>_load_bookmarks\<close> that the loops assign. \<open>workname\<close> and
  \<open>workid\<close> are unbound (None here) until a link assigns them, and they keep their
  values from one \<open>li\<close> to the next; \<open>authors\<close> starts empty at each \<open>li\<close>.
\<close>

record bm_vars =
  b_authors :: "user list"
  b_workname :: "string option option"
  b_workid :: "int option option"

text \<open>\<open>for a in bookm.h4.find_all("a")\<close>.\<close>

fun bookmark_links :: "env \<Rightarrow> anchor list \<Rightarrow> bm_vars \<Rightarrow> error + bm_vars" where
  "bookmark_links E [] v = Inr v"
| "bookmark_links E (a # as) v =
     (case rel a of
        Some r \<Rightarrow>
          (if ''author'' \<in> set r
           then bookmark_links E as (v\<lparr>b_authors := b_authors v @ [User (a_string a)]\<rparr>)
           else bookmark_links E as v)
      | None \<Rightarrow>
          (case href a of
             None \<Rightarrow> Inl KeyError
           | Some h \<Rightarrow>
               if startswith h ''/works''
               then bookmark_links E as
                      (v\<lparr>b_workname := Some (a_string a),
                         b_workid := Some (workid_from_url E h)\<rparr>)
               else bookmark_links E as v))"

text \<open>
  \<open>new = Work(workid, load=False)\<close> and the two \<open>setattr\<close>: reading an unbound
  variable raises.
\<close>

definition bookmark_new :: "bm_vars \<Rightarrow> error + work" where
  "bookmark_new v =
     (case b_workid v of
        None \<Rightarrow> Inl UnboundLocalError
      | Some wid \<Rightarrow>
          (case b_workname v of
             None \<Rightarrow> Inl UnboundLocalError
           | Some wname \<Rightarrow>
               Inr ((Work wid)\<lparr>work_title := wname, work_authors := b_authors v\<rparr>)))"

text \<open>\<open>if new not in self._bookmarks: self._bookmarks.append(new)\<close>, on a list.\<close>

definition append_new :: "work list \<Rightarrow> work \<Rightarrow> work list" where
  "append_new bs new = (if \<not> list_ex (\<lambda>b. work_eq b new) bs then bs @ [new] else bs)"

text \<open>\<open>for bookm in bookmarks.find_all("li", {'class': 'bookmark blurb group'})\<close>.\<close>

fun load_bookmark_entries ::
  "env \<Rightarrow> anchor list option list \<Rightarrow> string option option \<Rightarrow> int option option
     \<Rightarrow> session_obj \<Rightarrow> unit result" where
  "load_bookmark_entries E [] workname workid s = (Inr (), s)"
| "load_bookmark_entries E (bookm # bookms) workname workid s =
     (case bookm of
        None \<Rightarrow> (Inl AttributeError, s)
      | Some as \<Rightarrow>
          (case bookmark_links E as
                  \<lparr>b_authors = [], b_workname = workname, b_workid = workid\<rparr> of
             Inl e \<Rightarrow> (Inl e, s)
           | Inr v \<Rightarrow>
               (case bookmark_new v of
                  Inl e \<Rightarrow> (Inl e, s)
                | Inr new \<Rightarrow>
                    (case p_bookmarks s of
                       None \<Rightarrow> (Inl TypeError, s)
                     | Some bs \<Rightarrow>
                         load_bookmark_entries E bookms (b_workname v) (b_workid v)
                           (s\<lparr>p_bookmarks := Some (append_new bs new)\<rparr>)))))"

definition load_bookmarks :: "env \<Rightarrow> int \<Rightarrow> session_obj \<Rightarrow> unit result" where
  "load_bookmarks E page s =
     (case request E (bookmarks_url (username s) page) s of
        (Inl e, s1) \<Rightarrow> (Inl e, s1)
      | (Inr soup, s1) \<Rightarrow>
          (case bookmark_group soup of
             None \<Rightarrow> (Inl AttributeError, s1)
           | Some bookms \<Rightarrow> load_bookmark_entries E bookms None None s1))"

fun load_bookmarks_range :: "env \<Rightarrow> nat list \<Rightarrow> session_obj \<Rightarrow> unit result" where
  "load_bookmarks_range E [] s = (Inr (), s)"
| "load_bookmarks_range E (page # pages) s =
     (case load_bookmarks E (int page + 1) s of
        (Inl e, s1) \<Rightarrow> (Inl e, s1)
      | (Inr u, s1) \<Rightarrow> load_bookmarks_range E pages s1)"

text \<open>\<open>get_bookmarks\<close> with \<open>use_threading=False\<close>, the default.\<close>

definition get_bookmarks :: "env \<Rightarrow> session_obj \<Rightarrow> work list option result" where
  "get_bookmarks E s =
     (case p_bookmarks s of
        Some bs \<Rightarrow> (Inr (p_bookmarks s), s)
      | None \<Rightarrow>
          (let s1 = s\<lparr>p_bookmarks := Some []\<rparr>
           in case bookmark_pages E s1 of
                (Inl e, s2) \<Rightarrow> (Inl e, s2)
              | (Inr n, s2) \<Rightarrow>
                  (case load_bookmarks_range E [0..<nat n] s2 of
                     (Inl e, s3) \<Rightarrow> (Inl e, s3)
                   | (Inr u, s3) \<Rightarrow> (Inr (p_bookmarks s3), s3))))"

definition str_format :: "string \<Rightarrow> string" where
  "str_format t = remove_char CHR '','' t"

text \<open>The cached property \<open>bookmarks\<close>: the number of bookmarks.\<close>

definition bookmarks :: "env \<Rightarrow> session_obj \<Rightarrow> int result" where
  "bookmarks E s =
     (case cached_bookmarks s of
        Some n \<Rightarrow> (Inr n, s)
      | None \<Rightarrow>
          (case request E (bookmarks_url (username s) 1) s of
             (Inl e, s1) \<Rightarrow> (Inl e, s1)
           | (Inr soup, s1) \<Rightarrow>
               (case inner_current soup of
                  None \<Rightarrow> (Inl AttributeError, s1)
                | Some None \<Rightarrow> (Inl AttributeError, s1)
                | Some (Some text) \<Rightarrow>
                    (let span = remove_char CHR '')'' (remove_char CHR ''('' text);
                         parts = split_on CHR '' '' span
                     in if length parts < 2 then (Inl IndexError, s1)
                        else (case py_int (str_format (parts ! 1)) of
                                None \<Rightarrow> (Inl ValueError, s1)
                              | Some n \<Rightarrow> (Inr n, s1\<lparr>cached_bookmarks := Some n\<rparr>))))))"

subsection \<open>Notions for the statements\<close>

text \<open>
  The responses that a handle with history \<open>h\<close> gets when it sends the requests
  \<open>rs\<close> one after the other.
\<close>

fun served :: "env \<Rightarrow> request list \<Rightarrow> request list \<Rightarrow> response list" where
  "served E h [] = []"
| "served E h (r # rs) = server E h r # served E (h @ [r]) rs"

text \<open>The requests of the two loops over \<open>range(...)\<close>, for the values of \<open>page\<close>.\<close>

definition subscription_gets :: "string \<Rightarrow> nat list \<Rightarrow> request list" where
  "subscription_gets name pages = map (\<lambda>page. Get (subscriptions_url name (int page + 1))) pages"

definition bookmark_gets :: "string \<Rightarrow> nat list \<Rightarrow> request list" where
  "bookmark_gets name pages = map (\<lambda>page. Get (bookmarks_url name (int page + 1))) pages"

text \<open>The \<open>dt\<close> entries of a subscriptions page and the \<open>li\<close> entries of a bookmarks page.\<close>

definition subscription_entries :: "response \<Rightarrow> anchor list list" where
  "subscription_entries r = (case subscription_group (content r) of None \<Rightarrow> [] | Some subs \<Rightarrow> subs)"

definition bookmark_entries :: "response \<Rightarrow> anchor list option list" where
  "bookmark_entries r = (case bookmark_group (content r) of None \<Rightarrow> [] | Some bookms \<Rightarrow> bookms)"

text \<open>The links of an entry that carry no \<open>rel\<close> and lead to a work, and to a user.\<close>

definition work_links :: "anchor list \<Rightarrow> anchor list" where
  "work_links as =
     filter (\<lambda>a. rel a = None \<and> (case href a of None \<Rightarrow> False | Some h \<Rightarrow> startswith h ''/works'')) as"

definition user_links :: "anchor list \<Rightarrow> anchor list" where
  "user_links as =
     filter (\<lambda>a. rel a = None
              \<and> (case href a of None \<Rightarrow> False
                  | Some h \<Rightarrow> \<not> startswith h ''/works'' \<and> startswith h ''/users'')) as"

text \<open>
  The object that the body of the subscriptions loop appends for an entry (\<open>NoneObj\<close>
  when it raises or appends nothing), and what the local variables of the body hold
  after the links \<open>seen\<close>.
\<close>

definition sub_obj :: "env \<Rightarrow> anchor list \<Rightarrow> obj" where
  "sub_obj E sub = (case sub_entry E sub of Inr (Some x) \<Rightarrow> x | _ \<Rightarrow> NoneObj)"

definition link_id :: "env \<Rightarrow> anchor list \<Rightarrow> int option" where
  "link_id E ls =
     (case ls of
        [] \<Rightarrow> None
      | a # as \<Rightarrow> (case href (last ls) of None \<Rightarrow> None | Some h \<Rightarrow> workid_from_url E h))"

definition sub_vars_ok :: "env \<Rightarrow> anchor list \<Rightarrow> sub_vars \<Rightarrow> bool" where
  "sub_vars_ok E seen v =
     ((v_type v = ''work'' \<or> v_type v = ''user'' \<or> v_type v = ''series'')
      \<and> (v_type v = ''user'' \<longrightarrow> user_links seen \<noteq> [])
      \<and> (user_links seen \<noteq> [] \<longrightarrow> v_user v = UserObj (User (a_string (last (user_links seen)))))
      \<and> (v_type v = ''series'' \<longrightarrow> v_series v \<noteq> None)
      \<and> v_workid v = link_id E (work_links seen))"

text \<open>
  The works that the body of the bookmarks loop builds for the entries of one page, in
  order, up to the first entry at which it raises.
\<close>

fun bookmark_news ::
  "env \<Rightarrow> anchor list option list \<Rightarrow> string option option \<Rightarrow> int option option \<Rightarrow> work list" where
  "bookmark_news E [] workname workid = []"
| "bookmark_news E (bookm # bookms) workname workid =
     (case bookm of
        None \<Rightarrow> []
      | Some as \<Rightarrow>
          (case bookmark_links E as
                  \<lparr>b_authors = [], b_workname = workname, b_workid = workid\<rparr> of
             Inl e \<Rightarrow> []
           | Inr v \<Rightarrow>
               (case bookmark_new v of
                  Inl e \<Rightarrow> []
                | Inr new \<Rightarrow> new # bookmark_news E bookms (b_workname v) (b_workid v))))"

text \<open>The works built for the entries of a served bookmarks page.\<close>

definition bookmark_works :: "env \<Rightarrow> response \<Rightarrow> work list" where
  "bookmark_works E r = bookmark_news E (bookmark_entries r) None None"

subsection \<open>Example pages and sites\<close>

definition empty_page :: page where
  "empty_page = \<lparr>token_input = None, pagination = None, subscription_group = None,
                  bookmark_group = None, inner_current = None\<rparr>"

definition token_page :: page where
  "token_page = empty_page\<lparr>token_input := Some (Some ''tok'')\<rparr>"

text \<open>A site that answers every request with status 200 and a page with nothing on it.\<close>

definition blank_site :: env where
  "blank_site = \<lparr>server = (\<lambda>h r. \<lparr>status_code = 200, content = empty_page\<rparr>),
                  workid_from_url = (\<lambda>u. None)\<rparr>"

text \<open>A site whose pages carry a token and which answers every POST with status \<open>st\<close>.\<close>

definition login_site :: "int \<Rightarrow> env" where
  "login_site st =
     \<lparr>server = (\<lambda>h r. case r of
                   Get u \<Rightarrow> \<lparr>status_code = 200, content = token_page\<rparr>
                 | Post u ps ar \<Rightarrow> \<lparr>status_code = st, content = empty_page\<rparr>),
      workid_from_url = (\<lambda>u. None)\<rparr>"

text \<open>A session as a successful login leaves it.\<close>

definition logged_in :: session_obj where
  "logged_in =
     \<lparr>is_authed = True, authenticity_token = Some ''tok'', username = ''name'',
      session = [], url = ''https://archiveofourown.org/users/name'',
      p_bookmarks = None, p_subscriptions = None, cached_subscription_pages = None,
      cached_bookmark_pages = None, cached_bookmarks = None\<rparr>"



text \<open>
  A listing page with one entry (a link to work 7 and its author), on a listing of two
  pages, and a site that serves it for every request.
\<close>

definition work_link :: anchor where
  "work_link = \<lparr>rel = None, href = Some ''/works/7'', a_string = Some ''Title''\<rparr>"

definition author_link :: anchor where
  "author_link = \<lparr>rel = Some [''author''], href = Some ''/users/ann'', a_string = Some ''ann''\<rparr>"

definition listing_page :: page where
  "listing_page =
     empty_page\<lparr>pagination := Some [''1'', ''2''],
                subscription_group := Some [[work_link, author_link]],
                bookmark_group := Some [Some [work_link, author_link]]\<rparr>"

definition work7 :: work where
  "work7 = \<lparr>work_id = Some 7, work_title = Some ''Title'',
             work_authors = [\<lparr>user_name = Some ''ann''\<rparr>]\<rparr>"

definition listing_site :: env where
  "listing_site =
     \<lparr>server = (\<lambda>h r. \<lparr>status_code = 200, content = listing_page\<rparr>),
      workid_from_url = (\<lambda>u. Some 7)\<rparr>"


text \<open>A site whose subscriptions page has one entry without any link.\<close>

definition linkless_site :: env where
  "linkless_site =
     \<lparr>server = (\<lambda>h r. \<lparr>status_code = 200,
                          content = empty_page\<lparr>subscription_group := Some [[]]\<rparr>\<rparr>),
      workid_from_url = (\<lambda>u. Some 7)\<rparr>"

section \<open>Properties\<close>

subsection \<open>Transport\<close>

lemma request_run:
  "request E u s =
     (if status_code (server E (session s) (Get u)) = 429 then Inl HTTPError
      else Inr (content (server E (session s) (Get u))),
      s\<lparr>session := session s @ [Get u]\<rparr>)"
  by (simp add: request_def get_def send_def)

lemma post_run:
  "post E u ps ar s =
     (if status_code (server E (session s) (Post u ps ar)) = 429 then Inl HTTPError
      else Inr (server E (session s) (Post u ps ar)),
      s\<lparr>session := session s @ [Post u ps ar]\<rparr>)"
  by (simp add: post_def send_def)

subsection \<open>Login\<close>

text \<open>
  C1, as amended. When the login page is served (not with status 429) and carries a token
  \<open>v\<close>, the login POST is sent with the payload of name, password and \<open>v\<close> and with
  redirects disabled, and its status \<open>p\<close> decides: \<open>Session(name, password)\<close> gives a
  session if and only if the status is 302, and that session is authenticated and holds
  the token \<open>v\<close>; on status 429 it raises the rate-limit error \<open>HTTPError\<close>; on every
  other status it raises \<open>LoginError\<close>.
\<close>

theorem login_status:
  assumes "status_code (server E [] (Get ''https://archiveofourown.org/users/login'')) \<noteq> 429"
    and "token_input (content (server E [] (Get ''https://archiveofourown.org/users/login'')))
           = Some (Some v)"
    and "p = server E [Get ''https://archiveofourown.org/users/login'']
               (Post ''https://archiveofourown.org/users/login''
                  [(''user[login]'', name), (''user[password]'', password),
                   (''authenticity_token'', v)] False)"
  shows "((\<exists>s. Session_new E name password = Inr s) \<longleftrightarrow> status_code p = 302)
    \<and> (status_code p = 302 \<longrightarrow>
         (\<exists>s. Session_new E name password = Inr s \<and> is_authed s
              \<and> authenticity_token s = Some v \<and> username s = name
              \<and> p_subscriptions s = None \<and> p_bookmarks s = None))
    \<and> (status_code p = 429 \<longrightarrow> Session_new E name password = Inl HTTPError)
    \<and> (status_code p \<noteq> 302 \<and> status_code p \<noteq> 429 \<longrightarrow>
         Session_new E name password = Inl LoginError)
    \<and> session (snd (Session_init E name password))
        = [Get ''https://archiveofourown.org/users/login'',
           Post ''https://archiveofourown.org/users/login''
             [(''user[login]'', name), (''user[password]'', password),
              (''authenticity_token'', v)] False]"
  using assms
  by (simp add: Session_new_def Session_init_def request_run post_run GuestSession_init_def
      Let_def)

theorem login_status_witness:
  "(\<exists>s. Session_new (login_site 302) ''name'' ''secret'' = Inr s \<and> is_authed s
        \<and> authenticity_token s = Some ''tok'')
   \<and> Session_new (login_site 200) ''name'' ''secret'' = Inl LoginError
   \<and> Session_new (login_site 429) ''name'' ''secret'' = Inl HTTPError"
proof -
  have served: "status_code (server (login_site st) [] (Get u)) \<noteq> 429" for st u
    by (simp add: login_site_def)
  have token: "token_input (content (server (login_site st) [] (Get u))) = Some (Some ''tok'')"
    for st u
    by (simp add: login_site_def token_page_def empty_page_def)
  have status: "status_code (server (login_site st) h (Post u ps ar)) = st" for st h u ps ar
    by (simp add: login_site_def)
  show ?thesis
    using login_status [OF served token refl, of 302 "''name''" "''secret''"]
      login_status [OF served token refl, of 200 "''name''" "''secret''"]
      login_status [OF served token refl, of 429 "''name''" "''secret''"]
    by (simp add: status) blast
qed

text \<open>
  C1 as stated fails: a login POST answered with status 429 is a status other than 302,
  and the login raises \<open>HTTPError\<close> (from \<open>post\<close>), not \<open>LoginError\<close>.
\<close>

theorem login_rate_limited_post:
  "status_code (server (login_site 429) [Get ''https://archiveofourown.org/users/login'']
      (Post ''https://archiveofourown.org/users/login''
         [(''user[login]'', ''name''), (''user[password]'', ''secret''),
          (''authenticity_token'', ''tok'')] False)) \<noteq> 302
   \<and> Session_new (login_site 429) ''name'' ''secret'' = Inl HTTPError
   \<and> Session_new (login_site 429) ''name'' ''secret'' \<noteq> Inl LoginError"
  by (simp add: Session_new_def Session_init_def request_run post_run GuestSession_init_def
      login_site_def token_page_def empty_page_def Let_def)

text \<open>
  C8: the code at a login page without the token field. \<open>soup.find(...)\<close> is None and
  subscripting it raises \<open>TypeError\<close>, where the claim has \<open>UnexpectedResponseError\<close>
  (which \<open>refresh_auth_token\<close> raises for the same page).
\<close>

theorem login_without_token_field:
  "token_input (content (server blank_site [] (Get ''https://archiveofourown.org/users/login'')))
     = None
   \<and> Session_new blank_site ''name'' ''secret'' = Inl TypeError
   \<and> fst (refresh_auth_token blank_site GuestSession_init) = Inl UnexpectedResponseError"
  by (simp add: Session_new_def Session_init_def request_run blank_site_def empty_page_def
      GuestSession_init_def refresh_auth_token_def send_def Let_def)

subsection \<open>Token refresh\<close>



subsection \<open>Page counts\<close>

lemma digit_of_range: "digit_of c = Some v \<Longrightarrow> 0 \<le> v \<and> v \<le> 9"
  by (auto simp: digit_of_def split: if_splits)

lemma digit_not_space: "digit_of c \<noteq> None \<Longrightarrow> \<not> is_space c"
  by (auto simp: digit_of_def is_space_def split: if_splits)

lemma digit_not_sign:
  "digit_of c \<noteq> None \<Longrightarrow> c \<noteq> CHR ''-'' \<and> c \<noteq> CHR ''+'' \<and> c \<noteq> CHR ''_''"
  by (auto simp: digit_of_def split: if_splits)

lemma digits_acc_digits:
  "list_all (\<lambda>c. digit_of c \<noteq> None) cs \<Longrightarrow> 0 \<le> n \<Longrightarrow> \<exists>v. digits_acc n cs = Some v \<and> 0 \<le> v"
proof (induction cs arbitrary: n)
  case Nil
  then show ?case by simp
next
  case (Cons c cs)
  from Cons.prems obtain d where d: "digit_of c = Some d"
    and rest: "list_all (\<lambda>c. digit_of c \<noteq> None) cs"
    by auto
  have "0 \<le> 10 * n + d" using digit_of_range [OF d] Cons.prems(2) by simp
  from Cons.IH [OF rest this] d digit_not_sign [of c] show ?case by simp
qed

lemma strip_digits:
  assumes "isdigit t" shows "strip t = t"
proof -
  from assms have ne: "t \<noteq> []" and ds: "list_all (\<lambda>c. digit_of c \<noteq> None) t"
    by (simp_all add: isdigit_def)
  have "\<not> is_space (hd t)" using ne ds digit_not_space by (cases t) auto
  then have front: "dropWhile is_space t = t" using ne by (cases t) auto
  have "\<not> is_space (hd (rev t))" using ne ds digit_not_space [of "last t"]
    by (simp add: hd_rev list_all_iff)
  then have "dropWhile is_space (rev t) = rev t" using ne by (cases "rev t") auto
  with front show ?thesis by (simp add: strip_def)
qed

text \<open>On a string that \<open>isdigit\<close> accepts, \<open>int\<close> does not raise and is not negative.\<close>

lemma py_int_digits:
  assumes "isdigit t" shows "\<exists>v. py_int t = Some v \<and> 0 \<le> v"
proof -
  from assms obtain c cs where t: "t = c # cs" by (cases t) (auto simp: isdigit_def)
  from assms t obtain d where d: "digit_of c = Some d"
    and rest: "list_all (\<lambda>c. digit_of c \<noteq> None) cs"
    by (auto simp: isdigit_def)
  from digits_acc_digits [OF rest, of d] digit_of_range [OF d]
  obtain v where "digits_acc d cs = Some v" "0 \<le> v" by auto
  then show ?thesis
    using strip_digits [OF assms] t d digit_not_sign [of c]
    by (simp add: py_int_def py_digits_def)
qed

lemma last_number_total:
  "0 \<le> n \<Longrightarrow> \<exists>m. last_number lis n = Inr m \<and> 0 \<le> m
     \<and> (1 \<le> n \<and> (\<forall>t \<in> set lis. isdigit t \<longrightarrow> py_int t \<noteq> Some 0) \<longrightarrow> 1 \<le> m)"
proof (induction lis arbitrary: n)
  case Nil
  then show ?case by simp
next
  case (Cons t lis)
  show ?case
  proof (cases "isdigit t")
    case True
    from py_int_digits [OF True] obtain v where v: "py_int t = Some v" "0 \<le> v" by auto
    from Cons.IH [OF v(2)] obtain m where m: "last_number lis v = Inr m" "0 \<le> m"
      "1 \<le> v \<and> (\<forall>t \<in> set lis. isdigit t \<longrightarrow> py_int t \<noteq> Some 0) \<longrightarrow> 1 \<le> m"
      by auto
    have "v = 0 \<or> 1 \<le> v" using v(2) by auto
    with True v m show ?thesis by auto
  next
    case False
    with Cons.IH [OF Cons.prems] show ?thesis by auto
  qed
qed

lemma pages_of_soup_total:
  "\<exists>n. pages_of_soup soup = Inr n \<and> 0 \<le> n \<and> (pagination soup = None \<longrightarrow> n = 1)
     \<and> ((\<forall>lis. pagination soup = Some lis \<longrightarrow>
            (\<forall>t \<in> set lis. isdigit t \<longrightarrow> py_int t \<noteq> Some 0)) \<longrightarrow> 1 \<le> n)"
proof (cases "pagination soup")
  case None
  then show ?thesis by (simp add: pages_of_soup_def)
next
  case (Some lis)
  from last_number_total [of 1 lis] Some show ?thesis by (auto simp: pages_of_soup_def)
qed




subsection \<open>The subscriptions loop\<close>

lemma served_append: "served E h (rs @ rs') = served E h rs @ served E (h @ rs) rs'"
  by (induction rs arbitrary: h) auto

lemma length_served: "length (served E h rs) = length rs"
  by (induction rs arbitrary: h) auto

lemma link_id_snoc: "href a = Some h \<Longrightarrow> link_id E (ls @ [a]) = workid_from_url E h"
  by (cases ls) (simp_all add: link_id_def)

lemma sub_vars_ok_rel:
  "rel a = Some r \<Longrightarrow> sub_vars_ok E seen v \<Longrightarrow> v_type v1 = v_type v \<Longrightarrow> v_user v1 = v_user v
    \<Longrightarrow> v_series v1 = v_series v \<Longrightarrow> v_workid v1 = v_workid v
    \<Longrightarrow> sub_vars_ok E (seen @ [a]) v1"
  by (simp add: sub_vars_ok_def work_links_def user_links_def)

lemma sub_vars_ok_work:
  "rel a = None \<Longrightarrow> href a = Some h \<Longrightarrow> startswith h ''/works'' \<Longrightarrow> sub_vars_ok E seen v
    \<Longrightarrow> sub_vars_ok E (seen @ [a]) (v\<lparr>v_workname := n, v_workid := workid_from_url E h\<rparr>)"
  by (simp add: sub_vars_ok_def work_links_def user_links_def link_id_snoc)

lemma sub_vars_ok_user:
  "rel a = None \<Longrightarrow> href a = Some h \<Longrightarrow> \<not> startswith h ''/works'' \<Longrightarrow> startswith h ''/users''
    \<Longrightarrow> sub_vars_ok E seen v
    \<Longrightarrow> sub_vars_ok E (seen @ [a]) (v\<lparr>v_type := ''user'', v_user := UserObj (User (a_string a))\<rparr>)"
  by (simp add: sub_vars_ok_def work_links_def user_links_def)

lemma sub_vars_ok_series:
  "rel a = None \<Longrightarrow> href a = Some h \<Longrightarrow> \<not> startswith h ''/works'' \<Longrightarrow> \<not> startswith h ''/users''
    \<Longrightarrow> sub_vars_ok E seen v
    \<Longrightarrow> sub_vars_ok E (seen @ [a])
          (v\<lparr>v_type := ''series'', v_workname := n, v_series := Some k\<rparr>)"
  by (simp add: sub_vars_ok_def work_links_def user_links_def)

lemma sub_links_step:
  assumes "sub_links E (a # as) v = Inr v'" and "sub_vars_ok E seen v"
  shows "\<exists>v1. sub_links E as v1 = Inr v' \<and> sub_vars_ok E (seen @ [a]) v1"
proof (cases "rel a")
  case (Some r)
  then have "sub_vars_ok E (seen @ [a]) v"
    and "sub_vars_ok E (seen @ [a]) (v\<lparr>v_authors := v_authors v @ [User (a_string a)]\<rparr>)"
    using assms(2) by (simp_all add: sub_vars_ok_rel)
  with assms(1) Some show ?thesis by (cases "''author'' \<in> set r") auto
next
  case None
  with assms(1) obtain h where h: "href a = Some h" by (cases "href a") auto
  show ?thesis
  proof (cases "startswith h ''/works''")
    case True
    with assms None h sub_vars_ok_work [OF None h True assms(2)] show ?thesis by auto
  next
    case nw: False
    show ?thesis
    proof (cases "startswith h ''/users''")
      case True
      with assms None h nw sub_vars_ok_user [OF None h nw True assms(2)] show ?thesis by auto
    next
      case False
      with assms(1) None h nw obtain k where k: "py_int (last (split_on CHR ''/'' h)) = Some k"
        by (cases "py_int (last (split_on CHR ''/'' h))") auto
      with assms None h nw False sub_vars_ok_series [OF None h nw False assms(2)]
      show ?thesis by auto
    qed
  qed
qed

lemma sub_links_ok:
  "sub_links E as v = Inr v' \<Longrightarrow> sub_vars_ok E seen v \<Longrightarrow> sub_vars_ok E (seen @ as) v'"
proof (induction as arbitrary: v seen)
  case Nil
  then show ?case by simp
next
  case (Cons a as)
  from sub_links_step [OF Cons.prems] obtain v1
    where "sub_links E as v1 = Inr v'" "sub_vars_ok E (seen @ [a]) v1" by auto
  from Cons.IH [OF this] show ?case by simp
qed

lemma sub_links_error: "sub_links E as v = Inl e \<Longrightarrow> e = KeyError \<or> e = ValueError"
  by (induction as arbitrary: v) (auto split: option.splits if_splits)

lemma sub_vars_init_ok: "sub_vars_ok E [] sub_vars_init"
  by (simp add: sub_vars_ok_def sub_vars_init_def user_links_def work_links_def link_id_def)

lemma sub_entry_error: "sub_entry E sub = Inl e \<Longrightarrow> e = KeyError \<or> e = ValueError"
  using sub_links_error by (auto simp: sub_entry_def split: sum.splits)

lemma sub_entry_obj:
  assumes "sub_entry E sub = Inr r"
  shows "r = Some (sub_obj E sub) \<and> sub_obj E sub \<noteq> NoneObj
    \<and> (\<forall>se. sub_obj E sub = SeriesObj se \<longrightarrow> series_id se \<noteq> None)
    \<and> (\<forall>w. sub_obj E sub = WorkObj w \<longrightarrow> work_id w = link_id E (work_links sub))
    \<and> (\<forall>u. sub_obj E sub = UserObj u \<longrightarrow>
          user_links sub \<noteq> [] \<and> u = User (a_string (last (user_links sub))))"
proof -
  from assms obtain v where v: "sub_links E sub sub_vars_init = Inr v" and r: "r = sub_new v"
    by (auto simp: sub_entry_def split: sum.splits)
  from sub_links_ok [OF v sub_vars_init_ok] have ok: "sub_vars_ok E sub v" by simp
  consider "v_type v = ''work''" | "v_type v = ''user''" | "v_type v = ''series''"
    using ok by (auto simp: sub_vars_ok_def)
  then show ?thesis
  proof cases
    case 1
    with ok v r show ?thesis
      by (simp add: sub_obj_def sub_entry_def sub_new_def sub_vars_ok_def Work_def)
  next
    case 2
    with ok v r show ?thesis
      by (simp add: sub_obj_def sub_entry_def sub_new_def sub_vars_ok_def)
  next
    case 3
    with ok v r show ?thesis
      by (auto simp: sub_obj_def sub_entry_def sub_new_def sub_vars_ok_def Series_def)
  qed
qed

lemma subs_unchanged: "p_subscriptions s = v \<Longrightarrow> s\<lparr>p_subscriptions := v\<rparr> = s"
  by (cases s) auto

lemma lse_run:
  "p_subscriptions s = Some xs \<Longrightarrow>
   \<exists>ys. snd (load_subscription_entries E subs s) = s\<lparr>p_subscriptions := Some (xs @ ys)\<rparr>
      \<and> (\<forall>y \<in> set ys. \<exists>sub. sub_entry E sub = Inr (Some y))
      \<and> fst (load_subscription_entries E subs s) \<noteq> Inl HTTPError
      \<and> (fst (load_subscription_entries E subs s) = Inr () \<longrightarrow> ys = map (sub_obj E) subs)"
proof (induction subs arbitrary: s xs)
  case Nil
  then show ?case by simp
next
  case (Cons sub subs)
  show ?case
  proof (cases "sub_entry E sub")
    case (Inl e)
    with sub_entry_error [OF Inl] Cons.prems show ?thesis
      by (intro exI [of _ "[]"]) (auto simp: subs_unchanged)
  next
    case (Inr r)
    from sub_entry_obj [OF Inr] have r: "r = Some (sub_obj E sub)" by simp
    let ?s1 = "s\<lparr>p_subscriptions := Some (xs @ [sub_obj E sub])\<rparr>"
    have step: "load_subscription_entries E (sub # subs) s = load_subscription_entries E subs ?s1"
      using Inr r Cons.prems by simp
    have "p_subscriptions ?s1 = Some (xs @ [sub_obj E sub])" by simp
    from Cons.IH [OF this] obtain ys where ys:
      "snd (load_subscription_entries E subs ?s1) = ?s1\<lparr>p_subscriptions := Some ((xs @ [sub_obj E sub]) @ ys)\<rparr>"
      "\<forall>y \<in> set ys. \<exists>sub. sub_entry E sub = Inr (Some y)"
      "fst (load_subscription_entries E subs ?s1) \<noteq> Inl HTTPError"
      "fst (load_subscription_entries E subs ?s1) = Inr () \<longrightarrow> ys = map (sub_obj E) subs"
      by blast
    have "\<forall>y \<in> set (sub_obj E sub # ys). \<exists>sub. sub_entry E sub = Inr (Some y)"
      using ys(2) Inr r by auto
    with ys show ?thesis unfolding step
      by (intro exI [of _ "sub_obj E sub # ys"]) simp
  qed
qed

text \<open>One page.\<close>

lemma load_subscriptions_run:
  assumes "p_subscriptions s = Some xs"
    and "r = server E (session s) (Get (subscriptions_url (username s) page))"
  shows "\<exists>ys. snd (load_subscriptions E page s)
          = s\<lparr>session := session s @ [Get (subscriptions_url (username s) page)],
              p_subscriptions := Some (xs @ ys)\<rparr>
      \<and> (\<forall>y \<in> set ys. \<exists>sub. sub_entry E sub = Inr (Some y))
      \<and> (status_code r = 429 \<longrightarrow> fst (load_subscriptions E page s) = Inl HTTPError \<and> ys = [])
      \<and> (fst (load_subscriptions E page s) = Inl HTTPError \<longrightarrow> status_code r = 429)
      \<and> (fst (load_subscriptions E page s) = Inr () \<longrightarrow>
            ys = map (sub_obj E) (subscription_entries r)
            \<and> subscription_group (content r) \<noteq> None)"
proof (cases "status_code r = 429")
  case True
  with assms show ?thesis
    by (intro exI [of _ "[]"]) (simp add: load_subscriptions_def request_run subs_unchanged)
next
  case ok: False
  let ?s1 = "s\<lparr>session := session s @ [Get (subscriptions_url (username s) page)]\<rparr>"
  show ?thesis
  proof (cases "subscription_group (content r)")
    case None
    with ok assms show ?thesis
      by (intro exI [of _ "[]"]) (simp add: load_subscriptions_def request_run subs_unchanged)
  next
    case (Some subs)
    have run: "load_subscriptions E page s = load_subscription_entries E subs ?s1"
      using ok Some assms(2) by (simp add: load_subscriptions_def request_run)
    have "p_subscriptions ?s1 = Some xs" using assms(1) by simp
    from lse_run [OF this, of E subs] obtain ys where ys:
      "snd (load_subscription_entries E subs ?s1) = ?s1\<lparr>p_subscriptions := Some (xs @ ys)\<rparr>"
      "\<forall>y \<in> set ys. \<exists>sub. sub_entry E sub = Inr (Some y)"
      "fst (load_subscription_entries E subs ?s1) \<noteq> Inl HTTPError"
      "fst (load_subscription_entries E subs ?s1) = Inr () \<longrightarrow> ys = map (sub_obj E) subs"
      by blast
    with ok Some show ?thesis unfolding run
      by (intro exI [of _ ys]) (simp add: subscription_entries_def)
  qed
qed

lemma all_less_Suc_split: "(\<forall>i<Suc n. P i) \<longleftrightarrow> P 0 \<and> (\<forall>i<n. P (Suc i))"
  by (metis less_Suc_eq_0_disj Suc_less_eq zero_less_Suc)

lemma load_subscriptions_range_run:
  assumes "p_subscriptions s = Some xs"
  shows "\<exists>k ys. k \<le> length pages
      \<and> snd (load_subscriptions_range E pages s)
          = s\<lparr>session := session s @ subscription_gets (username s) (take k pages),
              p_subscriptions := Some (xs @ ys)\<rparr>
      \<and> (\<forall>y \<in> set ys. \<exists>sub. sub_entry E sub = Inr (Some y))
      \<and> (\<forall>i<k. status_code (served E (session s)
                    (subscription_gets (username s) (take k pages)) ! i) = 429 \<longrightarrow>
             fst (load_subscriptions_range E pages s) = Inl HTTPError \<and> Suc i = k)
      \<and> (fst (load_subscriptions_range E pages s) = Inr () \<longrightarrow>
            k = length pages
            \<and> ys = concat (map (\<lambda>r. map (sub_obj E) (subscription_entries r))
                     (served E (session s) (subscription_gets (username s) pages))))"
  using assms
proof (induction pages arbitrary: s xs)
  case Nil
  then show ?case
    by (intro exI [of _ 0] exI [of _ "[]"]) (simp add: subscription_gets_def subs_unchanged)
next
  case (Cons page pages)
  let ?g = "Get (subscriptions_url (username s) (int page + 1))"
  let ?r = "server E (session s) ?g"
  from load_subscriptions_run [OF Cons.prems refl, of E "int page + 1"]
  obtain ys1 where one:
    "snd (load_subscriptions E (int page + 1) s)
       = s\<lparr>session := session s @ [?g], p_subscriptions := Some (xs @ ys1)\<rparr>"
    "\<forall>y \<in> set ys1. \<exists>sub. sub_entry E sub = Inr (Some y)"
    "status_code ?r = 429 \<longrightarrow> fst (load_subscriptions E (int page + 1) s) = Inl HTTPError"
    "fst (load_subscriptions E (int page + 1) s) = Inr () \<longrightarrow>
       ys1 = map (sub_obj E) (subscription_entries ?r)"
    by blast
  let ?s1 = "s\<lparr>session := session s @ [?g], p_subscriptions := Some (xs @ ys1)\<rparr>"
  show ?case
  proof (cases "fst (load_subscriptions E (int page + 1) s)")
    case (Inl e)
    then have run: "load_subscriptions_range E (page # pages) s = (Inl e, ?s1)"
      using one(1) by (cases "load_subscriptions E (int page + 1) s") auto
    show ?thesis unfolding run using one(2,3) Inl
      by (intro exI [of _ 1] exI [of _ ys1]) (auto simp: subscription_gets_def)
  next
    case (Inr u)
    then have run: "load_subscriptions_range E (page # pages) s
        = load_subscriptions_range E pages ?s1"
      using one(1) by (cases "load_subscriptions E (int page + 1) s") auto
    have "p_subscriptions ?s1 = Some (xs @ ys1)" by simp
    from Cons.IH [OF this] obtain k ys where rest:
      "k \<le> length pages"
      "snd (load_subscriptions_range E pages ?s1)
         = ?s1\<lparr>session := session ?s1 @ subscription_gets (username ?s1) (take k pages),
               p_subscriptions := Some ((xs @ ys1) @ ys)\<rparr>"
      "\<forall>y \<in> set ys. \<exists>sub. sub_entry E sub = Inr (Some y)"
      "\<forall>i<k. status_code (served E (session ?s1)
                  (subscription_gets (username ?s1) (take k pages)) ! i) = 429 \<longrightarrow>
             fst (load_subscriptions_range E pages ?s1) = Inl HTTPError \<and> Suc i = k"
      "fst (load_subscriptions_range E pages ?s1) = Inr () \<longrightarrow>
            k = length pages
            \<and> ys = concat (map (\<lambda>r. map (sub_obj E) (subscription_entries r))
                     (served E (session ?s1) (subscription_gets (username ?s1) pages)))"
      by blast
    have gets: "subscription_gets (username s) (take (Suc k) (page # pages))
        = ?g # subscription_gets (username s) (take k pages)"
      "subscription_gets (username s) (page # pages) = ?g # subscription_gets (username s) pages"
      by (simp_all add: subscription_gets_def)
    have not429: "status_code ?r \<noteq> 429" using one(3) Inr by auto
    have ys1: "ys1 = map (sub_obj E) (subscription_entries ?r)" using one(4) Inr by simp
    have rest4: "\<forall>i<k. status_code (served E (session s @ [?g])
                  (subscription_gets (username s) (take k pages)) ! i) = 429 \<longrightarrow>
             fst (load_subscriptions_range E pages ?s1) = Inl HTTPError \<and> Suc i = k"
      using rest(4) by simp
    have rest5: "fst (load_subscriptions_range E pages ?s1) = Inr () \<longrightarrow>
            k = length pages
            \<and> ys = concat (map (\<lambda>r. map (sub_obj E) (subscription_entries r))
                     (served E (session s @ [?g]) (subscription_gets (username s) pages)))"
      using rest(5) by simp
    show ?thesis unfolding run
    proof (intro exI [of _ "Suc k"] exI [of _ "ys1 @ ys"] conjI, goal_cases)
      case 1
      show ?case using rest(1) by simp
    next
      case 2
      show ?case unfolding gets using rest(2) by simp
    next
      case 3
      show ?case using rest(3) one(2) by auto
    next
      case 4
      show ?case unfolding gets using rest4 not429 by (simp add: all_less_Suc_split)
    next
      case 5
      show ?case unfolding gets using rest5 ys1 by simp
    qed
  qed
qed

subsection \<open>The bookmarks loop\<close>

lemma bms_unchanged: "p_bookmarks s = v \<Longrightarrow> s\<lparr>p_bookmarks := v\<rparr> = s"
  by (cases s) auto

lemma bookmark_links_error: "bookmark_links E as v = Inl e \<Longrightarrow> e = KeyError"
  by (induction as arbitrary: v) (auto split: option.splits if_splits)

lemma bookmark_new_error: "bookmark_new v = Inl e \<Longrightarrow> e = UnboundLocalError"
  by (auto simp: bookmark_new_def split: option.splits)

lemma bookmark_new_id: "bookmark_new v = Inr new \<Longrightarrow> b_workid v = Some (work_id new)"
  by (auto simp: bookmark_new_def Work_def split: option.splits)

lemma bookmark_links_id:
  "bookmark_links E as v = Inr v' \<Longrightarrow> b_workid v' = Some w \<Longrightarrow>
   b_workid v = Some w \<or> (\<exists>h. startswith h ''/works'' \<and> w = workid_from_url E h)"
proof (induction as arbitrary: v)
  case Nil
  then show ?case by simp
next
  case (Cons a as)
  show ?case
  proof (cases "rel a")
    case (Some r)
    with Cons.prems(1) have "bookmark_links E as v = Inr v'
        \<or> bookmark_links E as (v\<lparr>b_authors := b_authors v @ [User (a_string a)]\<rparr>) = Inr v'"
      by (simp split: if_splits)
    with Cons.IH Cons.prems(2) show ?thesis by fastforce
  next
    case None
    with Cons.prems(1) obtain h where h: "href a = Some h" by (cases "href a") auto
    show ?thesis
    proof (cases "startswith h ''/works''")
      case True
      with Cons.prems(1) None h have "bookmark_links E as
          (v\<lparr>b_workname := Some (a_string a), b_workid := Some (workid_from_url E h)\<rparr>) = Inr v'"
        by simp
      from Cons.IH [OF this Cons.prems(2)] True show ?thesis by auto
    next
      case False
      with Cons.prems(1) None h have "bookmark_links E as v = Inr v'" by simp
      from Cons.IH [OF this Cons.prems(2)] show ?thesis .
    qed
  qed
qed

lemma bookmark_news_ids:
  "workid = None \<or> (\<exists>h. startswith h ''/works'' \<and> workid = Some (workid_from_url E h)) \<Longrightarrow>
   \<forall>w \<in> set (bookmark_news E bookms workname workid).
     \<exists>h. startswith h ''/works'' \<and> work_id w = workid_from_url E h"
proof (induction bookms arbitrary: workname workid)
  case Nil
  then show ?case by simp
next
  case (Cons bookm bookms)
  show ?case
  proof (cases bookm)
    case None
    then show ?thesis by simp
  next
    case (Some as)
    let ?v0 = "\<lparr>b_authors = [], b_workname = workname, b_workid = workid\<rparr>"
    show ?thesis
    proof (cases "bookmark_links E as ?v0")
      case (Inl e)
      with Some show ?thesis by simp
    next
      case (Inr v)
      show ?thesis
      proof (cases "bookmark_new v")
        case (Inl e)
        with Some Inr show ?thesis by simp
      next
        case new: (Inr new)
        from bookmark_new_id [OF new] have id: "b_workid v = Some (work_id new)" .
        from bookmark_links_id [OF Inr id] Cons.prems
        have from_link: "\<exists>h. startswith h ''/works'' \<and> work_id new = workid_from_url E h"
          by auto
        then have "b_workid v = None
            \<or> (\<exists>h. startswith h ''/works'' \<and> b_workid v = Some (workid_from_url E h))"
          using id by auto
        from Cons.IH [OF this, of "b_workname v"] from_link Some Inr new show ?thesis by simp
      qed
    qed
  qed
qed

lemma lbe_run:
  "p_bookmarks s = Some bs \<Longrightarrow>
   snd (load_bookmark_entries E bookms workname workid s)
     = s\<lparr>p_bookmarks := Some (foldl append_new bs (bookmark_news E bookms workname workid))\<rparr>
   \<and> fst (load_bookmark_entries E bookms workname workid s) \<noteq> Inl HTTPError
   \<and> (fst (load_bookmark_entries E bookms workname workid s) = Inr () \<longrightarrow>
        length (bookmark_news E bookms workname workid) = length bookms)"
proof (induction bookms arbitrary: s bs workname workid)
  case Nil
  then show ?case by (simp add: bms_unchanged)
next
  case (Cons bookm bookms)
  show ?case
  proof (cases bookm)
    case None
    with Cons.prems show ?thesis by (simp add: bms_unchanged)
  next
    case (Some as)
    let ?v0 = "\<lparr>b_authors = [], b_workname = workname, b_workid = workid\<rparr>"
    show ?thesis
    proof (cases "bookmark_links E as ?v0")
      case (Inl e)
      with Some Cons.prems bookmark_links_error [OF Inl] show ?thesis
        by (simp add: bms_unchanged)
    next
      case (Inr v)
      show ?thesis
      proof (cases "bookmark_new v")
        case (Inl e)
        with Some Inr Cons.prems bookmark_new_error [OF Inl] show ?thesis
          by (simp add: bms_unchanged)
      next
        case new: (Inr new)
        let ?s1 = "s\<lparr>p_bookmarks := Some (append_new bs new)\<rparr>"
        have "p_bookmarks ?s1 = Some (append_new bs new)" by simp
        from Cons.IH [OF this, of "b_workname v" "b_workid v"] Some Inr new Cons.prems
        show ?thesis by simp
      qed
    qed
  qed
qed

lemma load_bookmarks_run:
  assumes "p_bookmarks s = Some bs"
    and "r = server E (session s) (Get (bookmarks_url (username s) page))"
  shows "\<exists>ws. snd (load_bookmarks E page s)
          = s\<lparr>session := session s @ [Get (bookmarks_url (username s) page)],
              p_bookmarks := Some (foldl append_new bs ws)\<rparr>
      \<and> (\<forall>w \<in> set ws. \<exists>h. startswith h ''/works'' \<and> work_id w = workid_from_url E h)
      \<and> (status_code r = 429 \<longrightarrow> fst (load_bookmarks E page s) = Inl HTTPError \<and> ws = [])
      \<and> (fst (load_bookmarks E page s) = Inl HTTPError \<longrightarrow> status_code r = 429)
      \<and> (fst (load_bookmarks E page s) = Inr () \<longrightarrow>
            ws = bookmark_works E r
            \<and> length (bookmark_works E r) = length (bookmark_entries r)
            \<and> bookmark_group (content r) \<noteq> None)"
proof (cases "status_code r = 429")
  case True
  with assms show ?thesis
    by (intro exI [of _ "[]"]) (simp add: load_bookmarks_def request_run bms_unchanged)
next
  case ok: False
  let ?s1 = "s\<lparr>session := session s @ [Get (bookmarks_url (username s) page)]\<rparr>"
  show ?thesis
  proof (cases "bookmark_group (content r)")
    case None
    with ok assms show ?thesis
      by (intro exI [of _ "[]"]) (simp add: load_bookmarks_def request_run bms_unchanged)
  next
    case (Some bookms)
    have run: "load_bookmarks E page s = load_bookmark_entries E bookms None None ?s1"
      using ok Some assms(2) by (simp add: load_bookmarks_def request_run)
    have "p_bookmarks ?s1 = Some bs" using assms(1) by simp
    from lbe_run [OF this, of E bookms None None] bookmark_news_ids [of None E bookms None]
    show ?thesis unfolding run using ok Some
      by (intro exI [of _ "bookmark_news E bookms None None"])
        (simp add: bookmark_works_def bookmark_entries_def)
  qed
qed

lemma load_bookmarks_range_run:
  assumes "p_bookmarks s = Some bs"
  shows "\<exists>k ws. k \<le> length pages
      \<and> snd (load_bookmarks_range E pages s)
          = s\<lparr>session := session s @ bookmark_gets (username s) (take k pages),
              p_bookmarks := Some (foldl append_new bs ws)\<rparr>
      \<and> (\<forall>w \<in> set ws. \<exists>h. startswith h ''/works'' \<and> work_id w = workid_from_url E h)
      \<and> (\<forall>i<k. status_code (served E (session s)
                    (bookmark_gets (username s) (take k pages)) ! i) = 429 \<longrightarrow>
             fst (load_bookmarks_range E pages s) = Inl HTTPError \<and> Suc i = k)
      \<and> (fst (load_bookmarks_range E pages s) = Inr () \<longrightarrow>
            k = length pages
            \<and> ws = concat (map (bookmark_works E)
                     (served E (session s) (bookmark_gets (username s) pages)))
            \<and> length (concat (map (bookmark_works E)
                     (served E (session s) (bookmark_gets (username s) pages))))
              = sum_list (map (\<lambda>r. length (bookmark_entries r))
                     (served E (session s) (bookmark_gets (username s) pages))))"
  using assms
proof (induction pages arbitrary: s bs)
  case Nil
  then show ?case
    by (intro exI [of _ 0] exI [of _ "[]"]) (simp add: bookmark_gets_def bms_unchanged)
next
  case (Cons page pages)
  let ?g = "Get (bookmarks_url (username s) (int page + 1))"
  let ?r = "server E (session s) ?g"
  from load_bookmarks_run [OF Cons.prems refl, of E "int page + 1"]
  obtain ws1 where one:
    "snd (load_bookmarks E (int page + 1) s)
       = s\<lparr>session := session s @ [?g], p_bookmarks := Some (foldl append_new bs ws1)\<rparr>"
    "\<forall>w \<in> set ws1. \<exists>h. startswith h ''/works'' \<and> work_id w = workid_from_url E h"
    "status_code ?r = 429 \<longrightarrow> fst (load_bookmarks E (int page + 1) s) = Inl HTTPError"
    "fst (load_bookmarks E (int page + 1) s) = Inr () \<longrightarrow>
       ws1 = bookmark_works E ?r
       \<and> length (bookmark_works E ?r) = length (bookmark_entries ?r)"
    by blast
  let ?s1 = "s\<lparr>session := session s @ [?g], p_bookmarks := Some (foldl append_new bs ws1)\<rparr>"
  show ?case
  proof (cases "fst (load_bookmarks E (int page + 1) s)")
    case (Inl e)
    then have run: "load_bookmarks_range E (page # pages) s = (Inl e, ?s1)"
      using one(1) by (cases "load_bookmarks E (int page + 1) s") auto
    show ?thesis unfolding run using one(2,3) Inl
      by (intro exI [of _ 1] exI [of _ ws1]) (auto simp: bookmark_gets_def)
  next
    case (Inr u)
    then have run: "load_bookmarks_range E (page # pages) s
        = load_bookmarks_range E pages ?s1"
      using one(1) by (cases "load_bookmarks E (int page + 1) s") auto
    have "p_bookmarks ?s1 = Some (foldl append_new bs ws1)" by simp
    from Cons.IH [OF this] obtain k ws where rest:
      "k \<le> length pages"
      "snd (load_bookmarks_range E pages ?s1)
         = ?s1\<lparr>session := session ?s1 @ bookmark_gets (username ?s1) (take k pages),
               p_bookmarks := Some (foldl append_new (foldl append_new bs ws1) ws)\<rparr>"
      "\<forall>w \<in> set ws. \<exists>h. startswith h ''/works'' \<and> work_id w = workid_from_url E h"
      "\<forall>i<k. status_code (served E (session ?s1)
                  (bookmark_gets (username ?s1) (take k pages)) ! i) = 429 \<longrightarrow>
             fst (load_bookmarks_range E pages ?s1) = Inl HTTPError \<and> Suc i = k"
      "fst (load_bookmarks_range E pages ?s1) = Inr () \<longrightarrow>
            k = length pages
            \<and> ws = concat (map (bookmark_works E)
                     (served E (session ?s1) (bookmark_gets (username ?s1) pages)))
            \<and> length (concat (map (bookmark_works E)
                     (served E (session ?s1) (bookmark_gets (username ?s1) pages))))
              = sum_list (map (\<lambda>r. length (bookmark_entries r))
                     (served E (session ?s1) (bookmark_gets (username ?s1) pages)))"
      by blast
    have gets: "bookmark_gets (username s) (take (Suc k) (page # pages))
        = ?g # bookmark_gets (username s) (take k pages)"
      "bookmark_gets (username s) (page # pages) = ?g # bookmark_gets (username s) pages"
      by (simp_all add: bookmark_gets_def)
    have not429: "status_code ?r \<noteq> 429" using one(3) Inr by auto
    have ws1: "ws1 = bookmark_works E ?r
        \<and> length (bookmark_works E ?r) = length (bookmark_entries ?r)"
    proof -
      from Inr have "fst (load_bookmarks E (int page + 1) s) = Inr ()" by simp
      with one(4) show ?thesis by blast
    qed
    have rest4: "\<forall>i<k. status_code (served E (session s @ [?g])
                  (bookmark_gets (username s) (take k pages)) ! i) = 429 \<longrightarrow>
             fst (load_bookmarks_range E pages ?s1) = Inl HTTPError \<and> Suc i = k"
      using rest(4) by simp
    have rest5: "fst (load_bookmarks_range E pages ?s1) = Inr () \<longrightarrow>
            k = length pages
            \<and> ws = concat (map (bookmark_works E)
                     (served E (session s @ [?g]) (bookmark_gets (username s) pages)))
            \<and> length (concat (map (bookmark_works E)
                     (served E (session s @ [?g]) (bookmark_gets (username s) pages))))
              = sum_list (map (\<lambda>r. length (bookmark_entries r))
                     (served E (session s @ [?g]) (bookmark_gets (username s) pages)))"
      using rest(5) by auto
    show ?thesis unfolding run
    proof (intro exI [of _ "Suc k"] exI [of _ "ws1 @ ws"] conjI, goal_cases)
      case 1
      show ?case using rest(1) by simp
    next
      case 2
      show ?case unfolding gets using rest(2) by simp
    next
      case 3
      show ?case using rest(3) one(2) by auto
    next
      case 4
      show ?case unfolding gets using rest4 not429 by (simp add: all_less_Suc_split)
    next
      case 5
      show ?case unfolding gets using rest5 ws1 by simp
    qed
  qed
qed

text \<open>What the membership test before the append keeps.\<close>

lemma append_new_ids:
  "distinct (map work_id (append_new bs new))
   \<and> set (map work_id (append_new bs new)) = insert (work_id new) (set (map work_id bs))"
  if "distinct (map work_id bs)"
proof (cases "list_ex (\<lambda>b. work_eq b new) bs")
  case True
  then obtain b where "b \<in> set bs" "work_id b = work_id new"
    by (auto simp: list_ex_iff work_eq_def)
  then have "work_id new \<in> set (map work_id bs)"
    by (metis imageI set_map)
  with True show ?thesis using that by (auto simp: append_new_def)
next
  case False
  then have "\<forall>b \<in> set bs. work_id b \<noteq> work_id new"
    by (auto simp: list_ex_iff work_eq_def)
  then have "work_id new \<notin> set (map work_id bs)"
    by (metis imageE set_map)
  with False show ?thesis using that by (auto simp: append_new_def)
qed

lemma foldl_append_new_ids:
  "distinct (map work_id bs) \<Longrightarrow>
   distinct (map work_id (foldl append_new bs ws))
   \<and> set (map work_id (foldl append_new bs ws)) = set (map work_id bs) \<union> set (map work_id ws)"
proof (induction ws arbitrary: bs)
  case Nil
  then show ?case by simp
next
  case (Cons w ws)
  from append_new_ids [OF Cons.prems, of w] Cons.IH [of "append_new bs w"]
  show ?case by auto
qed

lemma foldl_append_new_set:
  "set (foldl append_new bs ws) \<subseteq> set bs \<union> set ws"
proof (induction ws arbitrary: bs)
  case Nil
  then show ?case by simp
next
  case (Cons w ws)
  have "set (append_new bs w) \<subseteq> insert w (set bs)" by (auto simp: append_new_def)
  with Cons.IH [of "append_new bs w"] show ?case by auto
qed

lemma length_foldl_append_new:
  "length (foldl append_new [] ws) = card (work_id ` set ws)"
proof -
  from foldl_append_new_ids [of "[]" ws]
  have d: "distinct (map work_id (foldl append_new [] ws))"
    and s: "set (map work_id (foldl append_new [] ws)) = set (map work_id ws)"
    by simp_all
  from distinct_card [OF d] s show ?thesis by simp
qed

text \<open>The page counts.\<close>

lemma subscription_pages_run:
  assumes "r = server E (session s) (Get (subscriptions_url (username s) 1))"
  shows "(\<forall>n. cached_subscription_pages s = Some n \<longrightarrow> subscription_pages E s = (Inr n, s))
    \<and> (cached_subscription_pages s = None \<and> status_code r = 429 \<longrightarrow>
         subscription_pages E s
           = (Inl HTTPError,
              s\<lparr>session := session s @ [Get (subscriptions_url (username s) 1)]\<rparr>))
    \<and> (cached_subscription_pages s = None \<and> status_code r \<noteq> 429 \<longrightarrow>
         (\<exists>n. pages_of_soup (content r) = Inr n
            \<and> subscription_pages E s
               = (Inr n, s\<lparr>session := session s @ [Get (subscriptions_url (username s) 1)],
                            cached_subscription_pages := Some n\<rparr>)))"
proof -
  from pages_of_soup_total [of "content r"] obtain n where "pages_of_soup (content r) = Inr n"
    by blast
  then show ?thesis using assms by (simp add: subscription_pages_def request_run)
qed

lemma bookmark_pages_run:
  assumes "r = server E (session s) (Get (bookmarks_url (username s) 1))"
  shows "(\<forall>n. cached_bookmark_pages s = Some n \<longrightarrow> bookmark_pages E s = (Inr n, s))
    \<and> (cached_bookmark_pages s = None \<and> status_code r = 429 \<longrightarrow>
         bookmark_pages E s
           = (Inl HTTPError,
              s\<lparr>session := session s @ [Get (bookmarks_url (username s) 1)]\<rparr>))
    \<and> (cached_bookmark_pages s = None \<and> status_code r \<noteq> 429 \<longrightarrow>
         (\<exists>n. pages_of_soup (content r) = Inr n
            \<and> bookmark_pages E s
               = (Inr n, s\<lparr>session := session s @ [Get (bookmarks_url (username s) 1)],
                            cached_bookmark_pages := Some n\<rparr>)))"
proof -
  from pages_of_soup_total [of "content r"] obtain n where "pages_of_soup (content r) = Inr n"
    by blast
  then show ?thesis using assms by (simp add: bookmark_pages_def request_run)
qed

lemma upto_from_range: "map (\<lambda>page. int page + 1) [0..<n] = [1..int n]"
proof (induction n)
  case 0
  then show ?case by simp
next
  case (Suc n)
  have "[1..int (Suc n)] = [1..int n] @ [int n + 1]"
    using upto_rec2 [of 1 "int n + 1"] by (simp add: add.commute)
  with Suc show ?case by simp
qed

lemma subscription_gets_upto:
  "subscription_gets name [0..<nat n] = map (\<lambda>i. Get (subscriptions_url name i)) [1..n]"
proof -
  have "subscription_gets name [0..<nat n]
      = map (\<lambda>i. Get (subscriptions_url name i)) (map (\<lambda>page. int page + 1) [0..<nat n])"
    by (simp add: subscription_gets_def comp_def)
  also have "map (\<lambda>page. int page + 1) [0..<nat n] = [1..n]"
    by (cases "0 \<le> n") (simp_all add: upto_from_range)
  finally show ?thesis .
qed

lemma bookmark_gets_upto:
  "bookmark_gets name [0..<nat n] = map (\<lambda>i. Get (bookmarks_url name i)) [1..n]"
proof -
  have "bookmark_gets name [0..<nat n]
      = map (\<lambda>i. Get (bookmarks_url name i)) (map (\<lambda>page. int page + 1) [0..<nat n])"
    by (simp add: bookmark_gets_def comp_def)
  also have "map (\<lambda>page. int page + 1) [0..<nat n] = [1..n]"
    by (cases "0 \<le> n") (simp_all add: upto_from_range)
  finally show ?thesis .
qed

text \<open>The whole of the sequential aggregation, after the page count.\<close>

lemma subscriptions_after_count:
  assumes "p_subscriptions s2 = Some []"
    and "res = (case load_subscriptions_range E [0..<nat n] s2 of
                  (Inl e, s3) \<Rightarrow> (Inl e, s3)
                | (Inr u, s3) \<Rightarrow> (Inr (p_subscriptions s3), s3))"
  shows "\<exists>ext ys. snd res = s2\<lparr>session := session s2 @ ext, p_subscriptions := Some ys\<rparr>
      \<and> (\<forall>y \<in> set ys. \<exists>sub. sub_entry E sub = Inr (Some y))
      \<and> (\<forall>i<length ext. status_code (served E (session s2) ext ! i) = 429 \<longrightarrow>
            fst res = Inl HTTPError \<and> Suc i = length ext)
      \<and> (\<forall>subs. fst res = Inr subs \<longrightarrow>
            subs = Some ys \<and> ext = subscription_gets (username s2) [0..<nat n]
            \<and> ys = concat (map (\<lambda>r. map (sub_obj E) (subscription_entries r))
                     (served E (session s2) ext)))"
proof -
  let ?R = "load_subscriptions_range E [0..<nat n] s2"
  from load_subscriptions_range_run [OF assms(1), of "[0..<nat n]" E]
  obtain k ys where run:
    "k \<le> length [0..<nat n]"
    "snd ?R = s2\<lparr>session := session s2 @ subscription_gets (username s2) (take k [0..<nat n]),
                 p_subscriptions := Some ([] @ ys)\<rparr>"
    "\<forall>y \<in> set ys. \<exists>sub. sub_entry E sub = Inr (Some y)"
    "\<forall>i<k. status_code (served E (session s2)
                (subscription_gets (username s2) (take k [0..<nat n])) ! i) = 429 \<longrightarrow>
           fst ?R = Inl HTTPError \<and> Suc i = k"
    "fst ?R = Inr () \<longrightarrow>
       k = length [0..<nat n]
       \<and> ys = concat (map (\<lambda>r. map (sub_obj E) (subscription_entries r))
                (served E (session s2) (subscription_gets (username s2) [0..<nat n])))"
    by blast
  let ?ext = "subscription_gets (username s2) (take k [0..<nat n])"
  have len: "length ?ext = k" using run(1) by (simp add: subscription_gets_def)
  have snd_res: "snd res = snd ?R" and fst_err: "fst res = Inl HTTPError \<longleftrightarrow> fst ?R = Inl HTTPError"
    and fst_ok: "\<And>subs. fst res = Inr subs \<Longrightarrow> fst ?R = Inr () \<and> subs = p_subscriptions (snd ?R)"
    unfolding assms(2) by (auto split: prod.splits sum.splits)
  show ?thesis
  proof (intro exI [of _ ?ext] exI [of _ ys] conjI, goal_cases)
    case 1
    show ?case using run(2) snd_res by simp
  next
    case 2
    show ?case using run(3) .
  next
    case 3
    show ?case using run(4) len fst_err by simp
  next
    case 4
    show ?case
    proof (intro allI impI)
      fix subs assume "fst res = Inr subs"
      from fst_ok [OF this] run(2,5)
      show "subs = Some ys \<and> ?ext = subscription_gets (username s2) [0..<nat n]
          \<and> ys = concat (map (\<lambda>r. map (sub_obj E) (subscription_entries r))
                   (served E (session s2) ?ext))"
        by simp
    qed
  qed
qed

lemma get_subscriptions_split:
  "p_subscriptions s = None \<Longrightarrow>
   get_subscriptions E s =
     (case subscription_pages E (s\<lparr>p_subscriptions := Some []\<rparr>) of
        (Inl e, s2) \<Rightarrow> (Inl e, s2)
      | (Inr n, s2) \<Rightarrow>
          (case load_subscriptions_range E [0..<nat n] s2 of
             (Inl e, s3) \<Rightarrow> (Inl e, s3)
           | (Inr u, s3) \<Rightarrow> (Inr (p_subscriptions s3), s3)))"
  by (simp add: get_subscriptions_def Let_def)

lemma get_subscriptions_run:
  assumes none: "p_subscriptions s = None"
  shows "\<exists>ext ys c. snd (get_subscriptions E s)
          = s\<lparr>session := session s @ ext, p_subscriptions := Some ys,
              cached_subscription_pages := c\<rparr>
      \<and> (\<forall>y \<in> set ys. \<exists>sub. sub_entry E sub = Inr (Some y))
      \<and> (\<forall>i<length ext. status_code (served E (session s) ext ! i) = 429 \<longrightarrow>
            fst (get_subscriptions E s) = Inl HTTPError \<and> Suc i = length ext)
      \<and> (\<forall>subs. fst (get_subscriptions E s) = Inr subs \<longrightarrow> subs = Some ys)"
proof -
  let ?s1 = "s\<lparr>p_subscriptions := Some []\<rparr>"
  let ?g1 = "Get (subscriptions_url (username s) 1)"
  let ?r1 = "server E (session s) ?g1"
  have r1: "?r1 = server E (session ?s1) (Get (subscriptions_url (username ?s1) 1))" by simp
  note count = subscription_pages_run [OF r1]
  note split = get_subscriptions_split [OF none, of E]
  consider (cached) n where "cached_subscription_pages s = Some n"
    | (limited) "cached_subscription_pages s = None" "status_code ?r1 = 429"
    | (fresh) "cached_subscription_pages s = None" "status_code ?r1 \<noteq> 429"
    by (cases "cached_subscription_pages s") auto
  then show ?thesis
  proof cases
    case cached
    with count have sp: "subscription_pages E ?s1 = (Inr n, ?s1)" by simp
    have eq: "get_subscriptions E s
        = (case load_subscriptions_range E [0..<nat n] ?s1 of
             (Inl e, s3) \<Rightarrow> (Inl e, s3)
           | (Inr u, s3) \<Rightarrow> (Inr (p_subscriptions s3), s3))"
      unfolding split sp by simp
    have "p_subscriptions ?s1 = Some []" by simp
    from subscriptions_after_count [OF this eq] obtain ext ys where run:
      "snd (get_subscriptions E s) = ?s1\<lparr>session := session ?s1 @ ext, p_subscriptions := Some ys\<rparr>"
      "\<forall>y \<in> set ys. \<exists>sub. sub_entry E sub = Inr (Some y)"
      "\<forall>i<length ext. status_code (served E (session ?s1) ext ! i) = 429 \<longrightarrow>
            fst (get_subscriptions E s) = Inl HTTPError \<and> Suc i = length ext"
      "\<forall>subs. fst (get_subscriptions E s) = Inr subs \<longrightarrow> subs = Some ys"
      by blast
    show ?thesis
    proof (intro exI [of _ ext] exI [of _ ys] exI [of _ "Some n"] conjI, goal_cases)
      case 1
      show ?case using run(1) cached by (cases s) simp
    next
      case 2
      show ?case using run(2) .
    next
      case 3
      show ?case using run(3) by simp
    next
      case 4
      show ?case using run(4) .
    qed
  next
    case limited
    with count have sp: "subscription_pages E ?s1 = (Inl HTTPError, ?s1\<lparr>session := session ?s1 @ [?g1]\<rparr>)"
      by simp
    show ?thesis unfolding split sp using limited
      by (intro exI [of _ "[?g1]"] exI [of _ "[]"] exI [of _ None]) (cases s, simp)
  next
    case fresh
    with count obtain n where
      sp: "subscription_pages E ?s1
            = (Inr n, ?s1\<lparr>session := session ?s1 @ [?g1], cached_subscription_pages := Some n\<rparr>)"
      by auto
    let ?s2 = "?s1\<lparr>session := session ?s1 @ [?g1], cached_subscription_pages := Some n\<rparr>"
    have eq: "get_subscriptions E s
        = (case load_subscriptions_range E [0..<nat n] ?s2 of
             (Inl e, s3) \<Rightarrow> (Inl e, s3)
           | (Inr u, s3) \<Rightarrow> (Inr (p_subscriptions s3), s3))"
      unfolding split sp by simp
    have "p_subscriptions ?s2 = Some []" by simp
    from subscriptions_after_count [OF this eq] obtain ext ys where run:
      "snd (get_subscriptions E s) = ?s2\<lparr>session := session ?s2 @ ext, p_subscriptions := Some ys\<rparr>"
      "\<forall>y \<in> set ys. \<exists>sub. sub_entry E sub = Inr (Some y)"
      "\<forall>i<length ext. status_code (served E (session ?s2) ext ! i) = 429 \<longrightarrow>
            fst (get_subscriptions E s) = Inl HTTPError \<and> Suc i = length ext"
      "\<forall>subs. fst (get_subscriptions E s) = Inr subs \<longrightarrow> subs = Some ys"
      by blast
    show ?thesis
    proof (intro exI [of _ "?g1 # ext"] exI [of _ ys] exI [of _ "Some n"] conjI, goal_cases)
      case 1
      show ?case using run(1) by simp
    next
      case 2
      show ?case using run(2) .
    next
      case 3
      show ?case using run(3) fresh(2) by (simp add: all_less_Suc_split)
    next
      case 4
      show ?case using run(4) .
    qed
  qed
qed

lemma bookmarks_after_count:
  assumes "p_bookmarks s2 = Some []"
    and "res = (case load_bookmarks_range E [0..<nat n] s2 of
                  (Inl e, s3) \<Rightarrow> (Inl e, s3)
                | (Inr u, s3) \<Rightarrow> (Inr (p_bookmarks s3), s3))"
  shows "\<exists>ext ws. snd res
          = s2\<lparr>session := session s2 @ ext, p_bookmarks := Some (foldl append_new [] ws)\<rparr>
      \<and> (\<forall>w \<in> set ws. \<exists>h. startswith h ''/works'' \<and> work_id w = workid_from_url E h)
      \<and> (\<forall>i<length ext. status_code (served E (session s2) ext ! i) = 429 \<longrightarrow>
            fst res = Inl HTTPError \<and> Suc i = length ext)
      \<and> (\<forall>bms. fst res = Inr bms \<longrightarrow>
            bms = Some (foldl append_new [] ws)
            \<and> ext = bookmark_gets (username s2) [0..<nat n]
            \<and> ws = concat (map (bookmark_works E) (served E (session s2) ext))
            \<and> length (concat (map (bookmark_works E) (served E (session s2) ext)))
              = sum_list (map (\<lambda>r. length (bookmark_entries r)) (served E (session s2) ext)))"
proof -
  let ?R = "load_bookmarks_range E [0..<nat n] s2"
  from load_bookmarks_range_run [OF assms(1), of "[0..<nat n]" E]
  obtain k ws where run:
    "k \<le> length [0..<nat n]"
    "snd ?R = s2\<lparr>session := session s2 @ bookmark_gets (username s2) (take k [0..<nat n]),
                 p_bookmarks := Some (foldl append_new [] ws)\<rparr>"
    "\<forall>w \<in> set ws. \<exists>h. startswith h ''/works'' \<and> work_id w = workid_from_url E h"
    "\<forall>i<k. status_code (served E (session s2)
                (bookmark_gets (username s2) (take k [0..<nat n])) ! i) = 429 \<longrightarrow>
           fst ?R = Inl HTTPError \<and> Suc i = k"
    "fst ?R = Inr () \<longrightarrow>
       k = length [0..<nat n]
       \<and> ws = concat (map (bookmark_works E)
                (served E (session s2) (bookmark_gets (username s2) [0..<nat n])))
       \<and> length (concat (map (bookmark_works E)
                (served E (session s2) (bookmark_gets (username s2) [0..<nat n]))))
         = sum_list (map (\<lambda>r. length (bookmark_entries r))
                (served E (session s2) (bookmark_gets (username s2) [0..<nat n])))"
    by blast
  let ?ext = "bookmark_gets (username s2) (take k [0..<nat n])"
  have len: "length ?ext = k" using run(1) by (simp add: bookmark_gets_def)
  have snd_res: "snd res = snd ?R" and fst_err: "fst res = Inl HTTPError \<longleftrightarrow> fst ?R = Inl HTTPError"
    and fst_ok: "\<And>bms. fst res = Inr bms \<Longrightarrow> fst ?R = Inr () \<and> bms = p_bookmarks (snd ?R)"
    unfolding assms(2) by (auto split: prod.splits sum.splits)
  show ?thesis
  proof (intro exI [of _ ?ext] exI [of _ ws] conjI, goal_cases)
    case 1
    show ?case using run(2) snd_res by simp
  next
    case 2
    show ?case using run(3) .
  next
    case 3
    show ?case using run(4) len fst_err by simp
  next
    case 4
    show ?case
    proof (intro allI impI)
      fix bms assume "fst res = Inr bms"
      from fst_ok [OF this] run(2,5)
      show "bms = Some (foldl append_new [] ws)
          \<and> ?ext = bookmark_gets (username s2) [0..<nat n]
          \<and> ws = concat (map (bookmark_works E) (served E (session s2) ?ext))
          \<and> length (concat (map (bookmark_works E) (served E (session s2) ?ext)))
            = sum_list (map (\<lambda>r. length (bookmark_entries r)) (served E (session s2) ?ext))"
        by simp
    qed
  qed
qed

lemma get_bookmarks_split:
  "p_bookmarks s = None \<Longrightarrow>
   get_bookmarks E s =
     (case bookmark_pages E (s\<lparr>p_bookmarks := Some []\<rparr>) of
        (Inl e, s2) \<Rightarrow> (Inl e, s2)
      | (Inr n, s2) \<Rightarrow>
          (case load_bookmarks_range E [0..<nat n] s2 of
             (Inl e, s3) \<Rightarrow> (Inl e, s3)
           | (Inr u, s3) \<Rightarrow> (Inr (p_bookmarks s3), s3)))"
  by (simp add: get_bookmarks_def Let_def)

lemma get_bookmarks_run:
  assumes none: "p_bookmarks s = None"
  shows "\<exists>ext ws c. snd (get_bookmarks E s)
          = s\<lparr>session := session s @ ext, p_bookmarks := Some (foldl append_new [] ws),
              cached_bookmark_pages := c\<rparr>
      \<and> (\<forall>w \<in> set ws. \<exists>h. startswith h ''/works'' \<and> work_id w = workid_from_url E h)
      \<and> (\<forall>i<length ext. status_code (served E (session s) ext ! i) = 429 \<longrightarrow>
            fst (get_bookmarks E s) = Inl HTTPError \<and> Suc i = length ext)
      \<and> (\<forall>bms. fst (get_bookmarks E s) = Inr bms \<longrightarrow> bms = Some (foldl append_new [] ws))"
proof -
  let ?s1 = "s\<lparr>p_bookmarks := Some []\<rparr>"
  let ?g1 = "Get (bookmarks_url (username s) 1)"
  let ?r1 = "server E (session s) ?g1"
  have r1: "?r1 = server E (session ?s1) (Get (bookmarks_url (username ?s1) 1))" by simp
  note count = bookmark_pages_run [OF r1]
  note split = get_bookmarks_split [OF none, of E]
  consider (cached) n where "cached_bookmark_pages s = Some n"
    | (limited) "cached_bookmark_pages s = None" "status_code ?r1 = 429"
    | (fresh) "cached_bookmark_pages s = None" "status_code ?r1 \<noteq> 429"
    by (cases "cached_bookmark_pages s") auto
  then show ?thesis
  proof cases
    case cached
    with count have sp: "bookmark_pages E ?s1 = (Inr n, ?s1)" by simp
    have eq: "get_bookmarks E s
        = (case load_bookmarks_range E [0..<nat n] ?s1 of
             (Inl e, s3) \<Rightarrow> (Inl e, s3)
           | (Inr u, s3) \<Rightarrow> (Inr (p_bookmarks s3), s3))"
      unfolding split sp by simp
    have "p_bookmarks ?s1 = Some []" by simp
    from bookmarks_after_count [OF this eq] obtain ext ws where run:
      "snd (get_bookmarks E s)
         = ?s1\<lparr>session := session ?s1 @ ext, p_bookmarks := Some (foldl append_new [] ws)\<rparr>"
      "\<forall>w \<in> set ws. \<exists>h. startswith h ''/works'' \<and> work_id w = workid_from_url E h"
      "\<forall>i<length ext. status_code (served E (session ?s1) ext ! i) = 429 \<longrightarrow>
            fst (get_bookmarks E s) = Inl HTTPError \<and> Suc i = length ext"
      "\<forall>bms. fst (get_bookmarks E s) = Inr bms \<longrightarrow> bms = Some (foldl append_new [] ws)"
      by blast
    show ?thesis
    proof (intro exI [of _ ext] exI [of _ ws] exI [of _ "Some n"] conjI, goal_cases)
      case 1
      show ?case using run(1) cached by (cases s) simp
    next
      case 2
      show ?case using run(2) .
    next
      case 3
      show ?case using run(3) by simp
    next
      case 4
      show ?case using run(4) .
    qed
  next
    case limited
    with count have sp: "bookmark_pages E ?s1 = (Inl HTTPError, ?s1\<lparr>session := session ?s1 @ [?g1]\<rparr>)"
      by simp
    show ?thesis unfolding split sp using limited
      by (intro exI [of _ "[?g1]"] exI [of _ "[]"] exI [of _ None]) (cases s, simp)
  next
    case fresh
    with count obtain n where
      sp: "bookmark_pages E ?s1
            = (Inr n, ?s1\<lparr>session := session ?s1 @ [?g1], cached_bookmark_pages := Some n\<rparr>)"
      by auto
    let ?s2 = "?s1\<lparr>session := session ?s1 @ [?g1], cached_bookmark_pages := Some n\<rparr>"
    have eq: "get_bookmarks E s
        = (case load_bookmarks_range E [0..<nat n] ?s2 of
             (Inl e, s3) \<Rightarrow> (Inl e, s3)
           | (Inr u, s3) \<Rightarrow> (Inr (p_bookmarks s3), s3))"
      unfolding split sp by simp
    have "p_bookmarks ?s2 = Some []" by simp
    from bookmarks_after_count [OF this eq] obtain ext ws where run:
      "snd (get_bookmarks E s)
         = ?s2\<lparr>session := session ?s2 @ ext, p_bookmarks := Some (foldl append_new [] ws)\<rparr>"
      "\<forall>w \<in> set ws. \<exists>h. startswith h ''/works'' \<and> work_id w = workid_from_url E h"
      "\<forall>i<length ext. status_code (served E (session ?s2) ext ! i) = 429 \<longrightarrow>
            fst (get_bookmarks E s) = Inl HTTPError \<and> Suc i = length ext"
      "\<forall>bms. fst (get_bookmarks E s) = Inr bms \<longrightarrow> bms = Some (foldl append_new [] ws)"
      by blast
    show ?thesis
    proof (intro exI [of _ "?g1 # ext"] exI [of _ ws] exI [of _ "Some n"] conjI, goal_cases)
      case 1
      show ?case using run(1) by simp
    next
      case 2
      show ?case using run(2) .
    next
      case 3
      show ?case using run(3) fresh(2) by (simp add: all_less_Suc_split)
    next
      case 4
      show ?case using run(4) .
    qed
  qed
qed

lemma subscription_pages_frame:
  assumes "subscription_pages E s = (out, s2)"
  shows "p_subscriptions s2 = p_subscriptions s \<and> username s2 = username s
    \<and> (out \<noteq> Inl HTTPError \<longrightarrow>
          session s2 = session s @ (if cached_subscription_pages s = None
                                    then [Get (subscriptions_url (username s) 1)] else []))"
  using subscription_pages_run [OF refl, where E = E and s = s] assms
  by (cases "cached_subscription_pages s";
      cases "status_code (server E (session s) (Get (subscriptions_url (username s) 1))) = 429")
    auto

lemma bookmark_pages_frame:
  assumes "bookmark_pages E s = (out, s2)"
  shows "p_bookmarks s2 = p_bookmarks s \<and> username s2 = username s
    \<and> (out \<noteq> Inl HTTPError \<longrightarrow>
          session s2 = session s @ (if cached_bookmark_pages s = None
                                    then [Get (bookmarks_url (username s) 1)] else []))"
  using bookmark_pages_run [OF refl, where E = E and s = s] assms
  by (cases "cached_bookmark_pages s";
      cases "status_code (server E (session s) (Get (bookmarks_url (username s) 1))) = 429")
    auto

lemma get_subscriptions_success:
  assumes "p_subscriptions s = None"
    and "subscription_pages E (s\<lparr>p_subscriptions := Some []\<rparr>) = (Inr N, s2)"
    and "get_subscriptions E s = (Inr subs, s')"
    and "gets = map (\<lambda>i. Get (subscriptions_url (username s) i)) [1..N]"
  shows "session s2 = session s @ (if cached_subscription_pages s = None
                                   then [Get (subscriptions_url (username s) 1)] else [])"
    and "session s' = session s2 @ gets"
    and "subs = Some (concat (map (\<lambda>r. map (sub_obj E) (subscription_entries r))
                        (served E (session s2) gets)))"
    and "p_subscriptions s' = subs"
proof -
  from subscription_pages_frame [OF assms(2)]
  have s2: "p_subscriptions s2 = Some []" "username s2 = username s"
    and "session s2 = session s @ (if cached_subscription_pages s = None
                                   then [Get (subscriptions_url (username s) 1)] else [])"
    by simp_all
  then show "session s2 = session s @ (if cached_subscription_pages s = None
                                   then [Get (subscriptions_url (username s) 1)] else [])"
    by simp
  have eq: "get_subscriptions E s
      = (case load_subscriptions_range E [0..<nat N] s2 of
           (Inl e, s3) \<Rightarrow> (Inl e, s3)
         | (Inr u, s3) \<Rightarrow> (Inr (p_subscriptions s3), s3))"
    using get_subscriptions_split [OF assms(1), of E] assms(2) by simp
  from subscriptions_after_count [OF s2(1) eq] obtain ext ys where run:
    "snd (get_subscriptions E s) = s2\<lparr>session := session s2 @ ext, p_subscriptions := Some ys\<rparr>"
    "\<forall>subs. fst (get_subscriptions E s) = Inr subs \<longrightarrow>
        subs = Some ys \<and> ext = subscription_gets (username s2) [0..<nat N]
        \<and> ys = concat (map (\<lambda>r. map (sub_obj E) (subscription_entries r))
                 (served E (session s2) ext))"
    by blast
  have "fst (get_subscriptions E s) = Inr subs" using assms(3) by simp
  with run(2) have ext0: "ext = subscription_gets (username s2) [0..<nat N]"
    and subs: "subs = Some ys"
    and ys: "ys = concat (map (\<lambda>r. map (sub_obj E) (subscription_entries r))
                 (served E (session s2) ext))"
    by blast+
  have ext: "ext = gets" using ext0 assms(4) s2(2) by (simp add: subscription_gets_upto)
  show "session s' = session s2 @ gets" using run(1) assms(3) ext by simp
  show "subs = Some (concat (map (\<lambda>r. map (sub_obj E) (subscription_entries r))
                        (served E (session s2) gets)))"
    using subs ys ext by simp
  show "p_subscriptions s' = subs" using run(1) assms(3) subs by simp
qed

lemma get_bookmarks_success:
  assumes "p_bookmarks s = None"
    and "bookmark_pages E (s\<lparr>p_bookmarks := Some []\<rparr>) = (Inr N, s2)"
    and "get_bookmarks E s = (Inr bms, s')"
    and "gets = map (\<lambda>i. Get (bookmarks_url (username s) i)) [1..N]"
  shows "session s2 = session s @ (if cached_bookmark_pages s = None
                                   then [Get (bookmarks_url (username s) 1)] else [])"
    and "session s' = session s2 @ gets"
    and "bms = Some (foldl append_new []
                 (concat (map (bookmark_works E) (served E (session s2) gets))))"
    and "length (concat (map (bookmark_works E) (served E (session s2) gets)))
          = sum_list (map (\<lambda>r. length (bookmark_entries r)) (served E (session s2) gets))"
    and "p_bookmarks s' = bms"
proof -
  from bookmark_pages_frame [OF assms(2)]
  have s2: "p_bookmarks s2 = Some []" "username s2 = username s"
    and "session s2 = session s @ (if cached_bookmark_pages s = None
                                   then [Get (bookmarks_url (username s) 1)] else [])"
    by simp_all
  then show "session s2 = session s @ (if cached_bookmark_pages s = None
                                   then [Get (bookmarks_url (username s) 1)] else [])"
    by simp
  have eq: "get_bookmarks E s
      = (case load_bookmarks_range E [0..<nat N] s2 of
           (Inl e, s3) \<Rightarrow> (Inl e, s3)
         | (Inr u, s3) \<Rightarrow> (Inr (p_bookmarks s3), s3))"
    using get_bookmarks_split [OF assms(1), of E] assms(2) by simp
  from bookmarks_after_count [OF s2(1) eq] obtain ext ws where run:
    "snd (get_bookmarks E s)
       = s2\<lparr>session := session s2 @ ext, p_bookmarks := Some (foldl append_new [] ws)\<rparr>"
    "\<forall>bms. fst (get_bookmarks E s) = Inr bms \<longrightarrow>
        bms = Some (foldl append_new [] ws)
        \<and> ext = bookmark_gets (username s2) [0..<nat N]
        \<and> ws = concat (map (bookmark_works E) (served E (session s2) ext))
        \<and> length (concat (map (bookmark_works E) (served E (session s2) ext)))
          = sum_list (map (\<lambda>r. length (bookmark_entries r)) (served E (session s2) ext))"
    by blast
  have "fst (get_bookmarks E s) = Inr bms" using assms(3) by simp
  with run(2) have ok:
    "bms = Some (foldl append_new [] ws)"
    "ext = bookmark_gets (username s2) [0..<nat N]"
    "ws = concat (map (bookmark_works E) (served E (session s2) ext))"
    "length (concat (map (bookmark_works E) (served E (session s2) ext)))
      = sum_list (map (\<lambda>r. length (bookmark_entries r)) (served E (session s2) ext))"
    by blast+
  have ext: "ext = gets" using ok(2) assms(4) s2(2) by (simp add: bookmark_gets_upto)
  show "session s' = session s2 @ gets" using run(1) assms(3) ext by simp
  show "bms = Some (foldl append_new []
                 (concat (map (bookmark_works E) (served E (session s2) gets))))"
    using ok(1,3) ext by simp
  show "length (concat (map (bookmark_works E) (served E (session s2) gets)))
          = sum_list (map (\<lambda>r. length (bookmark_entries r)) (served E (session s2) gets))"
    using ok(4) ext by simp
  show "p_bookmarks s' = bms" using run(1) assms(3) ok(1) by simp
qed

lemma load_subscriptions_range_grows:
  "p_subscriptions s = Some xs \<Longrightarrow>
   \<exists>rest. session (snd (load_subscriptions_range E pages s)) = session s @ rest"
  using load_subscriptions_range_run [of s xs pages E] by auto

lemma load_bookmarks_range_grows:
  "p_bookmarks s = Some bs \<Longrightarrow>
   \<exists>rest. session (snd (load_bookmarks_range E pages s)) = session s @ rest"
  using load_bookmarks_range_run [of s bs pages E] by auto

lemma get_subscriptions_refetch:
  assumes "p_subscriptions s = None" and "cached_subscription_pages s = None"
  shows "\<exists>rest. session (snd (get_subscriptions E s))
           = session s @ Get (subscriptions_url (username s) 1) # rest"
proof -
  let ?s1 = "s\<lparr>p_subscriptions := Some []\<rparr>"
  let ?g1 = "Get (subscriptions_url (username s) 1)"
  let ?r1 = "server E (session s) ?g1"
  have r1: "?r1 = server E (session ?s1) (Get (subscriptions_url (username ?s1) 1))" by simp
  note count = subscription_pages_run [OF r1]
  note split = get_subscriptions_split [OF assms(1), of E]
  show ?thesis
  proof (cases "status_code ?r1 = 429")
    case True
    with count assms(2)
    have "subscription_pages E ?s1 = (Inl HTTPError, ?s1\<lparr>session := session ?s1 @ [?g1]\<rparr>)"
      by simp
    then show ?thesis unfolding split by simp
  next
    case False
    with count assms(2) obtain n where
      sp: "subscription_pages E ?s1
            = (Inr n, ?s1\<lparr>session := session ?s1 @ [?g1], cached_subscription_pages := Some n\<rparr>)"
      by auto
    let ?s2 = "?s1\<lparr>session := session ?s1 @ [?g1], cached_subscription_pages := Some n\<rparr>"
    have "p_subscriptions ?s2 = Some []" by simp
    from load_subscriptions_range_grows [OF this, of E "[0..<nat n]"] obtain rest
      where "session (snd (load_subscriptions_range E [0..<nat n] ?s2)) = session ?s2 @ rest"
      by blast
    then show ?thesis unfolding split sp
      by (cases "load_subscriptions_range E [0..<nat n] ?s2"; cases "fst (load_subscriptions_range E [0..<nat n] ?s2)")
        auto
  qed
qed

lemma get_bookmarks_refetch:
  assumes "p_bookmarks s = None" and "cached_bookmark_pages s = None"
  shows "\<exists>rest. session (snd (get_bookmarks E s))
           = session s @ Get (bookmarks_url (username s) 1) # rest"
proof -
  let ?s1 = "s\<lparr>p_bookmarks := Some []\<rparr>"
  let ?g1 = "Get (bookmarks_url (username s) 1)"
  let ?r1 = "server E (session s) ?g1"
  have r1: "?r1 = server E (session ?s1) (Get (bookmarks_url (username ?s1) 1))" by simp
  note count = bookmark_pages_run [OF r1]
  note split = get_bookmarks_split [OF assms(1), of E]
  show ?thesis
  proof (cases "status_code ?r1 = 429")
    case True
    with count assms(2)
    have "bookmark_pages E ?s1 = (Inl HTTPError, ?s1\<lparr>session := session ?s1 @ [?g1]\<rparr>)"
      by simp
    then show ?thesis unfolding split by simp
  next
    case False
    with count assms(2) obtain n where
      sp: "bookmark_pages E ?s1
            = (Inr n, ?s1\<lparr>session := session ?s1 @ [?g1], cached_bookmark_pages := Some n\<rparr>)"
      by auto
    let ?s2 = "?s1\<lparr>session := session ?s1 @ [?g1], cached_bookmark_pages := Some n\<rparr>"
    have "p_bookmarks ?s2 = Some []" by simp
    from load_bookmarks_range_grows [OF this, of E "[0..<nat n]"] obtain rest
      where "session (snd (load_bookmarks_range E [0..<nat n] ?s2)) = session ?s2 @ rest"
      by blast
    then show ?thesis unfolding split sp
      by (cases "load_bookmarks_range E [0..<nat n] ?s2"; cases "fst (load_bookmarks_range E [0..<nat n] ?s2)")
        auto
  qed
qed

subsection \<open>Runs on the example sites\<close>

lemma listing_page_fields:
  "pages_of_soup listing_page = Inr 2"
  "subscription_group listing_page = Some [[work_link, author_link]]"
  "bookmark_group listing_page = Some [Some [work_link, author_link]]"
  by (simp_all add: pages_of_soup_def listing_page_def empty_page_def isdigit_def digit_of_def
      py_int_def strip_def is_space_def py_digits_def)

lemma listing_site_server:
  "server listing_site h r = \<lparr>status_code = 200, content = listing_page\<rparr>"
  "workid_from_url listing_site u = Some 7"
  by (simp_all add: listing_site_def)


lemma listing_sub_entry:
  "workid_from_url E ''/works/7'' = Some 7 \<Longrightarrow>
   sub_entry E [work_link, author_link] = Inr (Some (WorkObj work7))"
  by (simp add: sub_entry_def sub_new_def sub_vars_init_def work_link_def author_link_def
      startswith_def Work_def User_def work7_def)

lemma listing_bookmark_news:
  "workid_from_url E ''/works/7'' = Some 7 \<Longrightarrow>
   bookmark_links E [work_link, author_link] \<lparr>b_authors = [], b_workname = wn, b_workid = wi\<rparr>
     = Inr \<lparr>b_authors = [\<lparr>user_name = Some ''ann''\<rparr>], b_workname = Some (Some ''Title''),
            b_workid = Some (Some 7)\<rparr>"
  by (simp add: work_link_def author_link_def startswith_def User_def)

lemma range_2: "[0..<2] = [0, Suc 0]"
  by (simp add: numeral_2_eq_2)

lemma listing_subscriptions:
  "get_subscriptions listing_site logged_in
   = (Inr (Some [WorkObj work7, WorkObj work7]),
      logged_in\<lparr>session := [Get (subscriptions_url ''name'' 1), Get (subscriptions_url ''name'' 1),
                             Get (subscriptions_url ''name'' 2)],
                p_subscriptions := Some [WorkObj work7, WorkObj work7],
                cached_subscription_pages := Some 2\<rparr>)"
  by (simp add: get_subscriptions_def subscription_pages_def request_run load_subscriptions_def
      listing_sub_entry range_2 logged_in_def listing_site_server listing_page_fields)

lemma listing_bookmarks:
  "get_bookmarks listing_site logged_in
   = (Inr (Some [work7]),
      logged_in\<lparr>session := [Get (bookmarks_url ''name'' 1), Get (bookmarks_url ''name'' 1),
                             Get (bookmarks_url ''name'' 2)],
                p_bookmarks := Some [work7],
                cached_bookmark_pages := Some 2\<rparr>)"
  by (simp add: get_bookmarks_def bookmark_pages_def request_run load_bookmarks_def
      listing_bookmark_news bookmark_new_def append_new_def work_eq_def Work_def work7_def
      range_2 logged_in_def listing_site_server listing_page_fields
      del: bookmark_links.simps)



lemma linkless_subscriptions:
  "fst (get_subscriptions linkless_site logged_in)
   = Inr (Some [WorkObj \<lparr>work_id = None, work_title = None, work_authors = []\<rparr>])"
  by (simp add: get_subscriptions_def subscription_pages_def request_run load_subscriptions_def
      logged_in_def linkless_site_def empty_page_def pages_of_soup_def sub_entry_def sub_new_def
      sub_vars_init_def Work_def)

subsection \<open>Aggregation\<close>




text \<open>
  C3. A sequential aggregation call on a session with no cached list, whose page count
  resolves to \<open>N\<close> (from the memo, or by one fetch of page 1 of its own: \<open>s2\<close> is the
  session after that), and which returns. After the resolution the call sends exactly
  the GETs for the pages 1 to \<open>N\<close>, in this order and once each. For subscriptions the
  size of the aggregate is the sum of the numbers of entries of the pages served. For
  bookmarks the entries of the pages served build as many works as there are entries,
  the aggregate holds one work for each distinct id among them, so its size is the
  sum of the per-page entry counts minus the number of entries whose id an earlier
  entry already had.
\<close>

theorem sequential_aggregation_fetches:
  "(p_subscriptions s = None
      \<and> subscription_pages E (s\<lparr>p_subscriptions := Some []\<rparr>) = (Inr N, s2)
      \<and> get_subscriptions E s = (Inr subs, s')
      \<and> gets = map (\<lambda>i. Get (subscriptions_url (username s) i)) [1..N] \<longrightarrow>
        session s2 = session s @ (if cached_subscription_pages s = None
                                  then [Get (subscriptions_url (username s) 1)] else [])
        \<and> session s' = session s2 @ gets
        \<and> (\<exists>ys. subs = Some ys
              \<and> length ys = sum_list (map (\<lambda>r. length (subscription_entries r))
                                        (served E (session s2) gets))))
   \<and> (p_bookmarks s = None
      \<and> bookmark_pages E (s\<lparr>p_bookmarks := Some []\<rparr>) = (Inr N, s2)
      \<and> get_bookmarks E s = (Inr bms, s')
      \<and> gets = map (\<lambda>i. Get (bookmarks_url (username s) i)) [1..N]
      \<and> ws = concat (map (bookmark_works E) (served E (session s2) gets)) \<longrightarrow>
        session s2 = session s @ (if cached_bookmark_pages s = None
                                  then [Get (bookmarks_url (username s) 1)] else [])
        \<and> session s' = session s2 @ gets
        \<and> length ws = sum_list (map (\<lambda>r. length (bookmark_entries r))
                                   (served E (session s2) gets))
        \<and> (\<exists>bs. bms = Some bs \<and> length bs = card (work_id ` set ws)
              \<and> length bs = sum_list (map (\<lambda>r. length (bookmark_entries r))
                                         (served E (session s2) gets))
                             - (length ws - card (work_id ` set ws))))"
proof (intro conjI impI; elim conjE)
  assume a: "p_subscriptions s = None"
    "subscription_pages E (s\<lparr>p_subscriptions := Some []\<rparr>) = (Inr N, s2)"
    "get_subscriptions E s = (Inr subs, s')"
    "gets = map (\<lambda>i. Get (subscriptions_url (username s) i)) [1..N]"
  note ok = get_subscriptions_success [OF a]
  show "session s2 = session s @ (if cached_subscription_pages s = None
                                  then [Get (subscriptions_url (username s) 1)] else [])"
    by (rule ok(1))
  show "session s' = session s2 @ gets" by (rule ok(2))
  show "\<exists>ys. subs = Some ys
      \<and> length ys = sum_list (map (\<lambda>r. length (subscription_entries r))
                                (served E (session s2) gets))"
    using ok(3) by (simp add: length_concat comp_def)
next
  assume a: "p_bookmarks s = None"
    "bookmark_pages E (s\<lparr>p_bookmarks := Some []\<rparr>) = (Inr N, s2)"
    "get_bookmarks E s = (Inr bms, s')"
    "gets = map (\<lambda>i. Get (bookmarks_url (username s) i)) [1..N]"
    and ws: "ws = concat (map (bookmark_works E) (served E (session s2) gets))"
  note ok = get_bookmarks_success [OF a]
  show "session s2 = session s @ (if cached_bookmark_pages s = None
                                  then [Get (bookmarks_url (username s) 1)] else [])"
    by (rule ok(1))
  show "session s' = session s2 @ gets" by (rule ok(2))
  show len: "length ws = sum_list (map (\<lambda>r. length (bookmark_entries r))
                                   (served E (session s2) gets))"
    unfolding ws by (rule ok(4))
  have "card (work_id ` set ws) \<le> length ws"
    by (metis card_image_le card_length le_trans List.finite_set)
  then show "\<exists>bs. bms = Some bs \<and> length bs = card (work_id ` set ws)
              \<and> length bs = sum_list (map (\<lambda>r. length (bookmark_entries r))
                                         (served E (session s2) gets))
                             - (length ws - card (work_id ` set ws))"
    using ok(3) len ws by (simp add: length_foldl_append_new)
qed

theorem sequential_aggregation_fetches_witness:
  "session (snd (get_subscriptions listing_site logged_in))
     = [Get (subscriptions_url ''name'' 1)]
       @ [Get (subscriptions_url ''name'' 1), Get (subscriptions_url ''name'' 2)]
   \<and> fst (get_subscriptions listing_site logged_in) = Inr (Some [WorkObj work7, WorkObj work7])
   \<and> session (snd (get_bookmarks listing_site logged_in))
     = [Get (bookmarks_url ''name'' 1)]
       @ [Get (bookmarks_url ''name'' 1), Get (bookmarks_url ''name'' 2)]
   \<and> fst (get_bookmarks listing_site logged_in) = Inr (Some [work7])"
proof -
  have sp: "subscription_pages listing_site (logged_in\<lparr>p_subscriptions := Some []\<rparr>)
      = (Inr 2, logged_in\<lparr>p_subscriptions := Some [],
                          session := [Get (subscriptions_url ''name'' 1)],
                          cached_subscription_pages := Some 2\<rparr>)"
    by (simp add: subscription_pages_def request_run listing_site_server listing_page_fields
        logged_in_def)
  have bp: "bookmark_pages listing_site (logged_in\<lparr>p_bookmarks := Some []\<rparr>)
      = (Inr 2, logged_in\<lparr>p_bookmarks := Some [],
                          session := [Get (bookmarks_url ''name'' 1)],
                          cached_bookmark_pages := Some 2\<rparr>)"
    by (simp add: bookmark_pages_def request_run listing_site_server listing_page_fields
        logged_in_def)
  have none: "p_subscriptions logged_in = None" "p_bookmarks logged_in = None"
    "username logged_in = ''name''"
    by (simp_all add: logged_in_def)
  have up: "[1..2] = [1, 2::int]" by (simp add: upto.simps)
  note inst = sequential_aggregation_fetches [where s = logged_in and E = listing_site and N = 2]
  from inst [THEN conjunct1, rule_format, OF conjI [OF none(1) conjI [OF sp conjI [OF listing_subscriptions refl]]]]
    inst [THEN conjunct2, rule_format, OF conjI [OF none(2) conjI [OF bp conjI [OF listing_bookmarks conjI [OF refl refl]]]]]
  show ?thesis
    by (simp add: none up listing_subscriptions listing_bookmarks)
qed

text \<open>
  C4. The bookmarks loop appends a work only when no work already in the aggregate is
  equal to it. So the aggregate that a sequential \<open>get_bookmarks\<close> returns is what this
  test keeps of the works built for the entries served, in order: no two of its works
  are equal, and it has the ids of all of them. The subscriptions loop appends without
  any test: the aggregate that a sequential \<open>get_subscriptions\<close> returns is the
  sequence of the objects of all entries of all pages served, so an entry that is
  repeated appears once for each occurrence.
\<close>

theorem bookmarks_deduplicated_subscriptions_not:
  "(list_ex (\<lambda>b. work_eq b new) bs0 \<longrightarrow> append_new bs0 new = bs0)
   \<and> (\<not> list_ex (\<lambda>b. work_eq b new) bs0 \<longrightarrow> append_new bs0 new = bs0 @ [new])
   \<and> (p_bookmarks s = None
      \<and> bookmark_pages E (s\<lparr>p_bookmarks := Some []\<rparr>) = (Inr N, s2)
      \<and> get_bookmarks E s = (Inr bms, s')
      \<and> ws = concat (map (bookmark_works E)
                 (served E (session s2) (map (\<lambda>i. Get (bookmarks_url (username s) i)) [1..N])))
      \<longrightarrow> (\<exists>bs. bms = Some bs \<and> bs = foldl append_new [] ws
              \<and> (\<forall>i j. i < j \<and> j < length bs \<longrightarrow> \<not> work_eq (bs ! i) (bs ! j))
              \<and> set (map work_id bs) = set (map work_id ws)))
   \<and> (p_subscriptions s = None
      \<and> subscription_pages E (s\<lparr>p_subscriptions := Some []\<rparr>) = (Inr N, s2)
      \<and> get_subscriptions E s = (Inr subs, s')
      \<longrightarrow> subs = Some (concat (map (\<lambda>r. map (sub_obj E) (subscription_entries r))
                   (served E (session s2)
                      (map (\<lambda>i. Get (subscriptions_url (username s) i)) [1..N])))))"
proof (intro conjI impI; (elim conjE)?)
  show "list_ex (\<lambda>b. work_eq b new) bs0 \<Longrightarrow> append_new bs0 new = bs0"
    by (simp add: append_new_def)
  show "\<not> list_ex (\<lambda>b. work_eq b new) bs0 \<Longrightarrow> append_new bs0 new = bs0 @ [new]"
    by (simp add: append_new_def)
next
  assume a: "p_bookmarks s = None"
    "bookmark_pages E (s\<lparr>p_bookmarks := Some []\<rparr>) = (Inr N, s2)"
    "get_bookmarks E s = (Inr bms, s')"
    and ws: "ws = concat (map (bookmark_works E)
                 (served E (session s2) (map (\<lambda>i. Get (bookmarks_url (username s) i)) [1..N])))"
  from get_bookmarks_success(3) [OF a refl] ws
  have bms: "bms = Some (foldl append_new [] ws)" by simp
  from foldl_append_new_ids [of "[]" ws]
  have d: "distinct (map work_id (foldl append_new [] ws))"
    and ids: "set (map work_id (foldl append_new [] ws)) = set (map work_id ws)"
    by simp_all
  have "\<not> work_eq (foldl append_new [] ws ! i) (foldl append_new [] ws ! j)"
    if "i < j" "j < length (foldl append_new [] ws)" for i j
    using d that by (simp add: distinct_conv_nth work_eq_def)
  with bms ids
  show "\<exists>bs. bms = Some bs \<and> bs = foldl append_new [] ws
          \<and> (\<forall>i j. i < j \<and> j < length bs \<longrightarrow> \<not> work_eq (bs ! i) (bs ! j))
          \<and> set (map work_id bs) = set (map work_id ws)"
    by blast
next
  assume a: "p_subscriptions s = None"
    "subscription_pages E (s\<lparr>p_subscriptions := Some []\<rparr>) = (Inr N, s2)"
    "get_subscriptions E s = (Inr subs, s')"
  from get_subscriptions_success(3) [OF a refl]
  show "subs = Some (concat (map (\<lambda>r. map (sub_obj E) (subscription_entries r))
                   (served E (session s2)
                      (map (\<lambda>i. Get (subscriptions_url (username s) i)) [1..N]))))" .
qed

theorem bookmarks_deduplicated_subscriptions_not_witness:
  "fst (get_bookmarks listing_site logged_in) = Inr (Some [work7])
   \<and> concat (map (bookmark_works listing_site)
        (served listing_site [Get (bookmarks_url ''name'' 1)]
           [Get (bookmarks_url ''name'' 1), Get (bookmarks_url ''name'' 2)])) = [work7, work7]
   \<and> fst (get_subscriptions listing_site logged_in) = Inr (Some [WorkObj work7, WorkObj work7])"
proof -
  have sp: "subscription_pages listing_site (logged_in\<lparr>p_subscriptions := Some []\<rparr>)
      = (Inr 2, logged_in\<lparr>p_subscriptions := Some [],
                          session := [Get (subscriptions_url ''name'' 1)],
                          cached_subscription_pages := Some 2\<rparr>)"
    by (simp add: subscription_pages_def request_run listing_site_server listing_page_fields
        logged_in_def)
  have bp: "bookmark_pages listing_site (logged_in\<lparr>p_bookmarks := Some []\<rparr>)
      = (Inr 2, logged_in\<lparr>p_bookmarks := Some [],
                          session := [Get (bookmarks_url ''name'' 1)],
                          cached_bookmark_pages := Some 2\<rparr>)"
    by (simp add: bookmark_pages_def request_run listing_site_server listing_page_fields
        logged_in_def)
  have none: "p_subscriptions logged_in = None" "p_bookmarks logged_in = None"
    "username logged_in = ''name''"
    by (simp_all add: logged_in_def)
  have up: "[1..2] = [1, 2::int]" by (simp add: upto.simps)
  have works: "bookmark_works listing_site \<lparr>status_code = 200, content = listing_page\<rparr> = [work7]"
    by (simp add: bookmark_works_def bookmark_entries_def listing_page_fields
        listing_bookmark_news listing_site_server bookmark_new_def Work_def work7_def
        del: bookmark_links.simps)
  note inst = bookmarks_deduplicated_subscriptions_not
    [where s = logged_in and E = listing_site and N = 2]
  from inst [THEN conjunct2, THEN conjunct2, THEN conjunct1, rule_format,
      OF conjI [OF none(2) conjI [OF bp conjI [OF listing_bookmarks refl]]]]
    inst [THEN conjunct2, THEN conjunct2, THEN conjunct2, rule_format,
      OF conjI [OF none(1) conjI [OF sp listing_subscriptions]]]
  show ?thesis
    by (simp add: none up listing_subscriptions listing_bookmarks listing_site_server works)
qed

text \<open>
  C9, as amended. Whatever a sequential aggregation call on a session with no cached
  list leaves in the list field, after a return or an exception: every element of the
  subscriptions list is the object built for some entry \<open>sub\<close>, it is a work, a series or
  a user and never None; a series has a non-null id; the id of a work is what
  \<open>workid_from_url\<close> gives for the last link of the entry that has no \<open>rel\<close> and leads to
  a work, and null when the entry has no such link; the name of a user is the string of
  the last link of the entry that leads to a user. Every element of the bookmarks list
  has the id that \<open>workid_from_url\<close> gives for some link that leads to a work.
\<close>

theorem listing_reference_identity:
  "(p_subscriptions s = None \<longrightarrow>
      (\<exists>ys. p_subscriptions (snd (get_subscriptions E s)) = Some ys
         \<and> (\<forall>y \<in> set ys. \<exists>sub. sub_entry E sub = Inr (Some y) \<and> y \<noteq> NoneObj
               \<and> (\<forall>se. y = SeriesObj se \<longrightarrow> series_id se \<noteq> None)
               \<and> (\<forall>w. y = WorkObj w \<longrightarrow> work_id w = link_id E (work_links sub))
               \<and> (\<forall>u. y = UserObj u \<longrightarrow>
                     user_links sub \<noteq> []
                     \<and> user_name u = a_string (last (user_links sub))))))
   \<and> (p_bookmarks s = None \<longrightarrow>
      (\<exists>bs. p_bookmarks (snd (get_bookmarks E s)) = Some bs
         \<and> (\<forall>w \<in> set bs. \<exists>h. startswith h ''/works'' \<and> work_id w = workid_from_url E h)))
   \<and> link_id E [] = None"
proof (intro conjI impI)
  assume "p_subscriptions s = None"
  from get_subscriptions_run [OF this, of E] obtain ext ys c where run:
    "snd (get_subscriptions E s)
       = s\<lparr>session := session s @ ext, p_subscriptions := Some ys,
           cached_subscription_pages := c\<rparr>"
    "\<forall>y \<in> set ys. \<exists>sub. sub_entry E sub = Inr (Some y)"
    by blast
  have "\<exists>sub. sub_entry E sub = Inr (Some y) \<and> y \<noteq> NoneObj
          \<and> (\<forall>se. y = SeriesObj se \<longrightarrow> series_id se \<noteq> None)
          \<and> (\<forall>w. y = WorkObj w \<longrightarrow> work_id w = link_id E (work_links sub))
          \<and> (\<forall>u. y = UserObj u \<longrightarrow>
                user_links sub \<noteq> [] \<and> user_name u = a_string (last (user_links sub)))"
    if "y \<in> set ys" for y
  proof -
    from run(2) that obtain sub where sub: "sub_entry E sub = Inr (Some y)" by blast
    from sub_entry_obj [OF sub] have y: "y = sub_obj E sub" by simp
    from sub_entry_obj [OF sub] sub show ?thesis unfolding y
      by (intro exI [of _ sub]) (auto simp: User_def)
  qed
  with run(1) show "\<exists>ys. p_subscriptions (snd (get_subscriptions E s)) = Some ys
         \<and> (\<forall>y \<in> set ys. \<exists>sub. sub_entry E sub = Inr (Some y) \<and> y \<noteq> NoneObj
               \<and> (\<forall>se. y = SeriesObj se \<longrightarrow> series_id se \<noteq> None)
               \<and> (\<forall>w. y = WorkObj w \<longrightarrow> work_id w = link_id E (work_links sub))
               \<and> (\<forall>u. y = UserObj u \<longrightarrow>
                     user_links sub \<noteq> []
                     \<and> user_name u = a_string (last (user_links sub))))"
    by (intro exI [of _ ys]) simp
next
  assume "p_bookmarks s = None"
  from get_bookmarks_run [OF this, of E] obtain ext ws c where run:
    "snd (get_bookmarks E s)
       = s\<lparr>session := session s @ ext, p_bookmarks := Some (foldl append_new [] ws),
           cached_bookmark_pages := c\<rparr>"
    "\<forall>w \<in> set ws. \<exists>h. startswith h ''/works'' \<and> work_id w = workid_from_url E h"
    by blast
  from foldl_append_new_set [of "[]" ws] run(2)
  have "\<forall>w \<in> set (foldl append_new [] ws).
          \<exists>h. startswith h ''/works'' \<and> work_id w = workid_from_url E h"
    by auto
  with run(1) show "\<exists>bs. p_bookmarks (snd (get_bookmarks E s)) = Some bs
         \<and> (\<forall>w \<in> set bs. \<exists>h. startswith h ''/works'' \<and> work_id w = workid_from_url E h)"
    by (intro exI [of _ "foldl append_new [] ws"]) simp
next
  show "link_id E [] = None" by (simp add: link_id_def)
qed

theorem listing_reference_identity_witness:
  "p_subscriptions logged_in = None \<and> p_bookmarks logged_in = None
   \<and> (\<exists>sub. sub_entry listing_site sub = Inr (Some (WorkObj work7))
         \<and> work_id work7 = link_id listing_site (work_links sub))
   \<and> (\<exists>h. startswith h ''/works'' \<and> work_id work7 = workid_from_url listing_site h)"
proof -
  have none: "p_subscriptions logged_in = None" "p_bookmarks logged_in = None"
    by (simp_all add: logged_in_def)
  from listing_reference_identity [of logged_in listing_site, THEN conjunct1, rule_format, OF none(1)]
    listing_reference_identity [of logged_in listing_site, THEN conjunct2, THEN conjunct1,
      rule_format, OF none(2)]
  show ?thesis
    by (simp add: none listing_subscriptions listing_bookmarks)
qed

text \<open>
  C9 as stated fails: a subscriptions entry without any link is appended as a work whose
  id is None.
\<close>

theorem linkless_entry_without_id:
  "subscription_group (content (server linkless_site [] (Get (subscriptions_url ''name'' 1))))
     = Some [[]]
   \<and> (\<exists>w. fst (get_subscriptions linkless_site logged_in) = Inr (Some [WorkObj w])
         \<and> work_id w = None)"
  using linkless_subscriptions by (simp add: linkless_site_def empty_page_def)

subsection \<open>The filtered getters\<close>

lemma isinstance_exclusive:
  "x \<noteq> NoneObj \<Longrightarrow>
   (isinstance_Work x \<and> \<not> isinstance_Series x \<and> \<not> isinstance_User x)
   \<or> (\<not> isinstance_Work x \<and> isinstance_Series x \<and> \<not> isinstance_User x)
   \<or> (\<not> isinstance_Work x \<and> \<not> isinstance_Series x \<and> isinstance_User x)"
  by (cases x) simp_all

lemma filter_lengths:
  "\<forall>x \<in> set xs. x \<noteq> NoneObj \<Longrightarrow>
   length (filter isinstance_Work xs) + length (filter isinstance_Series xs)
     + length (filter isinstance_User xs) = length xs"
proof (induction xs)
  case Nil
  then show ?case by simp
next
  case (Cons x xs)
  then show ?case by (cases x) simp_all
qed

text \<open>
  C10. On a session whose subscriptions a sequential \<open>get_subscriptions\<close> has loaded
  (the call returned the list \<open>xs\<close> and left the session \<open>s'\<close>), and likewise when the
  getter itself does the loading: the three filtered getters return the works, the
  series and the users of \<open>xs\<close>, each as the sublist of \<open>xs\<close> that \<open>filter\<close> selects, in
  the order of \<open>xs\<close>; they send nothing and leave the session as it is; every element of
  \<open>xs\<close> is of exactly one of the three kinds; and the three lengths add up to the
  length of \<open>xs\<close>.
\<close>

theorem subscription_getters_partition:
  assumes "p_subscriptions s = None" and "get_subscriptions E s = (Inr subs, s')"
  shows "\<exists>xs. subs = Some xs
    \<and> get_subscriptions E s' = (Inr (Some xs), s')
    \<and> get_work_subscriptions E s' = (Inr (filter isinstance_Work xs), s')
    \<and> get_series_subscriptions E s' = (Inr (filter isinstance_Series xs), s')
    \<and> get_user_subscriptions E s' = (Inr (filter isinstance_User xs), s')
    \<and> get_work_subscriptions E s = (Inr (filter isinstance_Work xs), s')
    \<and> get_series_subscriptions E s = (Inr (filter isinstance_Series xs), s')
    \<and> get_user_subscriptions E s = (Inr (filter isinstance_User xs), s')
    \<and> (\<forall>x \<in> set xs.
          (isinstance_Work x \<and> \<not> isinstance_Series x \<and> \<not> isinstance_User x)
          \<or> (\<not> isinstance_Work x \<and> isinstance_Series x \<and> \<not> isinstance_User x)
          \<or> (\<not> isinstance_Work x \<and> \<not> isinstance_Series x \<and> isinstance_User x))
    \<and> length (filter isinstance_Work xs) + length (filter isinstance_Series xs)
        + length (filter isinstance_User xs) = length xs"
proof -
  from get_subscriptions_run [OF assms(1), of E] obtain ext ys c where run:
    "snd (get_subscriptions E s)
       = s\<lparr>session := session s @ ext, p_subscriptions := Some ys,
           cached_subscription_pages := c\<rparr>"
    "\<forall>y \<in> set ys. \<exists>sub. sub_entry E sub = Inr (Some y)"
    "\<forall>subs. fst (get_subscriptions E s) = Inr subs \<longrightarrow> subs = Some ys"
    by blast
  from run(3) assms(2) have subs: "subs = Some ys" by simp
  from run(1) assms(2) have loaded: "p_subscriptions s' = Some ys" by simp
  have some: "\<forall>y \<in> set ys. y \<noteq> NoneObj"
  proof
    fix y assume "y \<in> set ys"
    with run(2) obtain sub where sub: "sub_entry E sub = Inr (Some y)" by blast
    from sub_entry_obj [OF sub] show "y \<noteq> NoneObj" by simp
  qed
  have again: "get_subscriptions E s' = (Inr (Some ys), s')"
    using loaded by (simp add: get_subscriptions_def)
  show ?thesis
  proof (intro exI [of _ ys] conjI)
    show "subs = Some ys" by (rule subs)
    show "get_subscriptions E s' = (Inr (Some ys), s')" by (rule again)
    show "get_work_subscriptions E s' = (Inr (filter isinstance_Work ys), s')"
      by (simp add: get_work_subscriptions_def list_filter_def again)
    show "get_series_subscriptions E s' = (Inr (filter isinstance_Series ys), s')"
      by (simp add: get_series_subscriptions_def list_filter_def again)
    show "get_user_subscriptions E s' = (Inr (filter isinstance_User ys), s')"
      by (simp add: get_user_subscriptions_def list_filter_def again)
    show "get_work_subscriptions E s = (Inr (filter isinstance_Work ys), s')"
      using assms(2) subs by (simp add: get_work_subscriptions_def list_filter_def)
    show "get_series_subscriptions E s = (Inr (filter isinstance_Series ys), s')"
      using assms(2) subs by (simp add: get_series_subscriptions_def list_filter_def)
    show "get_user_subscriptions E s = (Inr (filter isinstance_User ys), s')"
      using assms(2) subs by (simp add: get_user_subscriptions_def list_filter_def)
    show "\<forall>x \<in> set ys.
          (isinstance_Work x \<and> \<not> isinstance_Series x \<and> \<not> isinstance_User x)
          \<or> (\<not> isinstance_Work x \<and> isinstance_Series x \<and> \<not> isinstance_User x)
          \<or> (\<not> isinstance_Work x \<and> \<not> isinstance_Series x \<and> isinstance_User x)"
      using some isinstance_exclusive by blast
    show "length (filter isinstance_Work ys) + length (filter isinstance_Series ys)
        + length (filter isinstance_User ys) = length ys"
      using some by (rule filter_lengths)
  qed
qed

theorem subscription_getters_partition_witness:
  "p_subscriptions logged_in = None
   \<and> fst (get_work_subscriptions listing_site logged_in) = Inr [WorkObj work7, WorkObj work7]
   \<and> fst (get_series_subscriptions listing_site logged_in) = Inr []
   \<and> fst (get_user_subscriptions listing_site logged_in) = Inr []"
proof -
  have none: "p_subscriptions logged_in = None" by (simp add: logged_in_def)
  from subscription_getters_partition [OF none listing_subscriptions]
  show ?thesis by (simp add: none)
qed

subsection \<open>Clearing the cache\<close>

text \<open>
  C6. After \<open>clear_cache()\<close> the three memoized values and the two list fields are
  absent, whatever they held before, and nothing else of the session has changed: two
  sessions that differ only in these five fields are equal after it. The next access
  fetches again: each page count and the total of bookmarks send the GET for page 1 of
  their listing, and each sequential aggregation starts with that GET.
\<close>

theorem clear_cache_forgets:
  "cached_subscription_pages (clear_cache s) = None
   \<and> cached_bookmark_pages (clear_cache s) = None
   \<and> cached_bookmarks (clear_cache s) = None
   \<and> p_subscriptions (clear_cache s) = None
   \<and> p_bookmarks (clear_cache s) = None
   \<and> clear_cache (s\<lparr>cached_subscription_pages := a, cached_bookmark_pages := b,
                     cached_bookmarks := c, p_subscriptions := d, p_bookmarks := e\<rparr>)
       = clear_cache s
   \<and> clear_cache s = s\<lparr>cached_subscription_pages := None, cached_bookmark_pages := None,
                        cached_bookmarks := None, p_subscriptions := None,
                        p_bookmarks := None\<rparr>
   \<and> session (snd (subscription_pages E (clear_cache s)))
       = session s @ [Get (subscriptions_url (username s) 1)]
   \<and> session (snd (bookmark_pages E (clear_cache s)))
       = session s @ [Get (bookmarks_url (username s) 1)]
   \<and> session (snd (bookmarks E (clear_cache s)))
       = session s @ [Get (bookmarks_url (username s) 1)]
   \<and> (\<exists>rest. session (snd (get_subscriptions E (clear_cache s)))
         = session s @ Get (subscriptions_url (username s) 1) # rest)
   \<and> (\<exists>rest. session (snd (get_bookmarks E (clear_cache s)))
         = session s @ Get (bookmarks_url (username s) 1) # rest)"
proof -
  have fields: "cached_subscription_pages (clear_cache s) = None"
    "cached_bookmark_pages (clear_cache s) = None"
    "cached_bookmarks (clear_cache s) = None"
    "p_subscriptions (clear_cache s) = None"
    "p_bookmarks (clear_cache s) = None"
    "session (clear_cache s) = session s"
    "username (clear_cache s) = username s"
    by (simp_all add: clear_cache_def)
  have counts: "session (snd (subscription_pages E (clear_cache s)))
       = session s @ [Get (subscriptions_url (username s) 1)]"
    "session (snd (bookmark_pages E (clear_cache s)))
       = session s @ [Get (bookmarks_url (username s) 1)]"
    using subscription_pages_run [OF refl, where E = E and s = "clear_cache s"]
      bookmark_pages_run [OF refl, where E = E and s = "clear_cache s"]
    by (auto simp: fields)
  have total: "session (snd (bookmarks E (clear_cache s)))
       = session s @ [Get (bookmarks_url (username s) 1)]"
    by (simp add: bookmarks_def fields request_run Let_def split: option.splits)
  from get_subscriptions_refetch [OF fields(4) fields(1), of E]
    get_bookmarks_refetch [OF fields(5) fields(2), of E]
  have again: "\<exists>rest. session (snd (get_subscriptions E (clear_cache s)))
         = session s @ Get (subscriptions_url (username s) 1) # rest"
    "\<exists>rest. session (snd (get_bookmarks E (clear_cache s)))
         = session s @ Get (bookmarks_url (username s) 1) # rest"
    by (simp_all add: fields)
  have same: "clear_cache (s\<lparr>cached_subscription_pages := a, cached_bookmark_pages := b,
                     cached_bookmarks := c, p_subscriptions := d, p_bookmarks := e\<rparr>)
       = clear_cache s"
    "clear_cache s = s\<lparr>cached_subscription_pages := None, cached_bookmark_pages := None,
                        cached_bookmarks := None, p_subscriptions := None,
                        p_bookmarks := None\<rparr>"
    by (simp_all add: clear_cache_def)
  from fields(1-5) same counts total again show ?thesis by blast
qed

end
